theory Spec2Isabelle
  imports Main "HOL-Library.Extended_Nat"
begin

section \<open>The experiment engine of xlab (xlab/experiments/experiment.py, logger.py)\<close>

text \<open>
  The class \<^verbatim>\<open>Experiment\<close> drives a measurement loop from a Qt timer. Each timer tick
  runs \<^verbatim>\<open>_on_timer\<close>: it advances the condition sweep, builds an ordered dictionary
  with the elapsed time and the condition variables, calls the user's hooks, stores the
  record in a numpy structured array that doubles when full, and calls the loggers and
  the plot functions.

  The model is a state-passing one. The attributes of the object are the fields of the
  record \<open>experiment_state\<close>; every method takes the state and returns the new state,
  together with the exception it raised, if any. The numpy arrays live in a store, at
  addresses: \<^verbatim>\<open>_data\<close> holds the address of an array, a view of an array is the address
  with a number of rows, and a copy is a new array at a new address. What the user's
  functions do when they are called at a tick (they are arbitrary Python, possibly
  stateful) is the input of that tick, the record \<open>env\<close>.
\<close>

subsection \<open>Python values, exceptions, numpy\<close>

text \<open>
  The scalars a measurement holds: Python ints (unbounded), floats and strings. A float
  is represented by the rational number it denotes; the engine never computes with
  floats except for the subtraction \<^verbatim>\<open>time.monotonic() - self._t0\<close>, whose rounding is
  not modelled, and non-finite floats are outside the model.
\<close>

datatype pyval = PyInt int | PyFloat rat | PyStr string

datatype pytype = TInt | TFloat | TStr

fun type_py :: "pyval \<Rightarrow> pytype" where
  "type_py (PyInt n) = TInt"
| "type_py (PyFloat f) = TFloat"
| "type_py (PyStr s) = TStr"

datatype exn =
    TypeError
  | ValueError
  | OverflowError
  | IndexError
  | AttributeError
  | RuntimeError string
  | FileExistsError string
  | UserError string

text \<open>The error raised at line 164 of experiment.py (the spec's SchemaMismatch).\<close>

definition SchemaMismatch :: exn where
  "SchemaMismatch =
     RuntimeError ''Measure returned different columns (or different order) than first call''"

text \<open>
  The field types of the structured array: \<^verbatim>\<open>np.dtype\<close> of the promoted Python type,
  which is \<^verbatim>\<open>float\<close> (float64) or \<^verbatim>\<open>object\<close> for the three types of values above.
\<close>

datatype dtype = Float64 | Object

text \<open>
  \<^verbatim>\<open>return {int: float, str: object}.get(dtype, dtype)\<close>: the default branch is taken by
  \<^verbatim>\<open>float\<close>, which stays \<^verbatim>\<open>float\<close>.
\<close>

fun promote_datatype :: "pytype \<Rightarrow> dtype" where
  "promote_datatype TInt = Float64"
| "promote_datatype TStr = Object"
| "promote_datatype TFloat = Float64"

text \<open>A stored cell: a float64, or a reference to a Python object.\<close>

datatype cell = CFloat rat | CObj pyval

type_synonym row = "cell list"

text \<open>
  What numpy and Python do with numbers and text is not code of the repository; it is a
  parameter of the model. \<open>float_of_int\<close> converts a Python int to float64 (\<open>None\<close>:
  OverflowError, the int is too large), \<open>float_of_str\<close> parses a string as a float
  (\<open>None\<close>: ValueError), \<open>str_float\<close> and \<open>str_int\<close> are \<^verbatim>\<open>str()\<close> of a float and
  of an int.
\<close>

record numpy =
  float_of_int :: "int \<Rightarrow> rat option"
  float_of_str :: "string \<Rightarrow> rat option"
  str_float :: "rat \<Rightarrow> string"
  str_int :: "int \<Rightarrow> string"

text \<open>Assigning a Python value to a field of the given type.\<close>

fun convert :: "numpy \<Rightarrow> dtype \<Rightarrow> pyval \<Rightarrow> exn + cell" where
  "convert np Float64 (PyInt n) =
     (case float_of_int np n of None \<Rightarrow> Inl OverflowError | Some f \<Rightarrow> Inr (CFloat f))"
| "convert np Float64 (PyFloat f) = Inr (CFloat f)"
| "convert np Float64 (PyStr s) =
     (case float_of_str np s of None \<Rightarrow> Inl ValueError | Some f \<Rightarrow> Inr (CFloat f))"
| "convert np Object v = Inr (CObj v)"

text \<open>
  Assigning a tuple to a record of the array: one value per field, converted from left
  to right; a tuple of the wrong length is a ValueError.
\<close>

fun convert_row :: "numpy \<Rightarrow> dtype list \<Rightarrow> pyval list \<Rightarrow> exn + row" where
  "convert_row np [] [] = Inr []"
| "convert_row np (t # ts) (v # vs) =
     (case convert np t v of
        Inl ex \<Rightarrow> Inl ex
      | Inr c \<Rightarrow> (case convert_row np ts vs of Inl ex \<Rightarrow> Inl ex | Inr cs \<Rightarrow> Inr (c # cs)))"
| "convert_row np ts vs = Inl ValueError"

text \<open>
  A structured array: its field names and types, and its buffer. \<^verbatim>\<open>np.empty\<close> does not
  initialise the buffer; a slot that was never assigned is \<open>None\<close>.
\<close>

record ndarray =
  descr :: "(string \<times> dtype) list"
  buf :: "row option list"

definition names :: "ndarray \<Rightarrow> string list" where
  "names a = map fst (descr a)"

text \<open>
  \<^verbatim>\<open>np.dtype([(name, type), ...])\<close> gives a field whose name is the empty string the name
  \<^verbatim>\<open>f<i>\<close>, \<open>i\<close> being the position of the field in decimal, and then rejects a repeated
  field name.
\<close>

fun string_of_nat :: "nat \<Rightarrow> string" where
  "string_of_nat n =
     (if n < 10 then [''0123456789'' ! n]
      else string_of_nat (n div 10) @ [''0123456789'' ! (n mod 10)])"

declare string_of_nat.simps [simp del]

fun field_names :: "nat \<Rightarrow> (string \<times> dtype) list \<Rightarrow> (string \<times> dtype) list" where
  "field_names i [] = []"
| "field_names i ((name, t) # fs) =
     ((if name = [] then ''f'' @ string_of_nat i else name), t) # field_names (Suc i) fs"

definition np_dtype :: "(string \<times> dtype) list \<Rightarrow> exn + (string \<times> dtype) list" where
  "np_dtype fs =
     (if distinct (map fst (field_names 0 fs)) then Inr (field_names 0 fs) else Inl ValueError)"

definition np_empty :: "nat \<Rightarrow> (string \<times> dtype) list \<Rightarrow> ndarray" where
  "np_empty n dt = \<lparr>descr = dt, buf = replicate n None\<rparr>"

text \<open>
  \<^verbatim>\<open>a[:n]\<close> read (the first \<open>n\<close> rows, all of them when there are fewer) and
  \<^verbatim>\<open>a[:n] = tmp\<close> for an array \<open>tmp\<close> of \<open>n\<close> rows.
\<close>

definition getslice :: "ndarray \<Rightarrow> nat \<Rightarrow> ndarray" where
  "getslice a n = a\<lparr>buf := take n (buf a)\<rparr>"

definition setslice :: "ndarray \<Rightarrow> nat \<Rightarrow> ndarray \<Rightarrow> ndarray" where
  "setslice a n tmp = a\<lparr>buf := take n (buf tmp) @ drop n (buf a)\<rparr>"

text \<open>
  What an array holds after user code was given it and has returned, \<open>ws\<close> being the rows
  as the user code left them. numpy converts every value written to an array to the type
  of its field, and neither the number of rows nor the fields of an array can be changed
  through it: the rows are those of \<open>ws\<close> that are rows of the array's type, the others
  are as they were.
\<close>

fun cell_dtype :: "cell \<Rightarrow> dtype" where
  "cell_dtype (CFloat f) = Float64"
| "cell_dtype (CObj v) = Object"

definition row_typed :: "(string \<times> dtype) list \<Rightarrow> row option \<Rightarrow> bool" where
  "row_typed dt c = (case c of None \<Rightarrow> False | Some r \<Rightarrow> map cell_dtype r = map snd dt)"

fun written :: "(string \<times> dtype) list \<Rightarrow> row option list \<Rightarrow> row option list \<Rightarrow> row option list" where
  "written dt [] ws = []"
| "written dt (c # cs) [] = c # cs"
| "written dt (c # cs) (w # ws) = (if row_typed dt w then w else c) # written dt cs ws"

text \<open>\<^verbatim>\<open>a[idx] = data\<close>\<close>

definition setitem_row :: "numpy \<Rightarrow> ndarray \<Rightarrow> nat \<Rightarrow> pyval list \<Rightarrow> exn + (row \<times> ndarray)" where
  "setitem_row np a idx vs =
     (if idx < length (buf a) then
        (case convert_row np (map snd (descr a)) vs of
           Inl ex \<Rightarrow> Inl ex
         | Inr r \<Rightarrow> Inr (r, a\<lparr>buf := (buf a)[idx := Some r]\<rparr>))
      else Inl IndexError)"

subsection \<open>The measurement record\<close>

text \<open>
  A \<^verbatim>\<open>collections.OrderedDict\<close> is an association list in insertion order;
  \<^verbatim>\<open>m[k] = v\<close> replaces the value of an existing key in place and appends a new key.
\<close>

type_synonym measurement = "(string \<times> pyval) list"

fun setitem :: "string \<Rightarrow> pyval \<Rightarrow> measurement \<Rightarrow> measurement" where
  "setitem k v [] = [(k, v)]"
| "setitem k v ((k', v') # m) = (if k' = k then (k, v) # m else (k', v') # setitem k v m)"

subsection \<open>Loggers (logger.py)\<close>

text \<open>
  The two logger classes of the repository. A \<open>CsvLogger\<close> has its file name, its
  separator and \<^verbatim>\<open>_file\<close>, which is \<^verbatim>\<open>None\<close> (False) or the open file (True). The file
  system is a map from file names to contents.
\<close>

datatype logger = Logger | CsvLogger string string bool

type_synonym filesystem = "string \<rightharpoonup> string"

text \<open>A record of the array as the loggers see it: the field names and the cells.\<close>

type_synonym np_void = "string list \<times> row"

fun str_cell :: "numpy \<Rightarrow> cell \<Rightarrow> string" where
  "str_cell np (CFloat f) = str_float np f"
| "str_cell np (CObj (PyStr s)) = s"
| "str_cell np (CObj (PyInt n)) = str_int np n"
| "str_cell np (CObj (PyFloat f)) = str_float np f"

text \<open>\<^verbatim>\<open>print(*xs, file=f, sep=sep)\<close> writes the items joined by \<open>sep\<close> and a newline.\<close>

fun join :: "string \<Rightarrow> string list \<Rightarrow> string" where
  "join sep [] = []"
| "join sep [x] = x"
| "join sep (x # y # ys) = x @ sep @ join sep (y # ys)"

definition print_line :: "string \<Rightarrow> string list \<Rightarrow> string" where
  "print_line sep xs = join sep xs @ [CHR 0x0A]"

text \<open>
  \<^verbatim>\<open>open(self._filename, 'xt', encoding='utf-8')\<close> creates the file and fails when it
  exists already.
\<close>

fun logger_start :: "np_void \<Rightarrow> logger \<Rightarrow> filesystem \<Rightarrow> exn + (logger \<times> filesystem)" where
  "logger_start d Logger fs = Inr (Logger, fs)"
| "logger_start d (CsvLogger filename sep file) fs =
     (if filename \<in> dom fs then Inl (FileExistsError filename)
      else Inr (CsvLogger filename sep True, fs(filename \<mapsto> print_line sep (fst d))))"

text \<open>
  With \<^verbatim>\<open>self._file\<close> being \<^verbatim>\<open>None\<close>, \<^verbatim>\<open>print\<close> writes to the standard output (which is not
  modelled) and \<^verbatim>\<open>self._file.flush()\<close> raises AttributeError.
\<close>

fun logger_log :: "numpy \<Rightarrow> np_void \<Rightarrow> logger \<Rightarrow> filesystem \<Rightarrow> exn + (logger \<times> filesystem)" where
  "logger_log np d Logger fs = Inr (Logger, fs)"
| "logger_log np d (CsvLogger filename sep file) fs =
     (if file then
        (case fs filename of
           Some content \<Rightarrow>
             Inr (CsvLogger filename sep file,
                  fs(filename \<mapsto> content @ print_line sep (map (str_cell np) (snd d))))
         | None \<Rightarrow>
             Inr (CsvLogger filename sep file,
                  fs(filename \<mapsto> print_line sep (map (str_cell np) (snd d)))))
      else Inl AttributeError)"

fun logger_finish :: "logger \<Rightarrow> filesystem \<Rightarrow> exn + (logger \<times> filesystem)" where
  "logger_finish Logger fs = Inr (Logger, fs)"
| "logger_finish (CsvLogger filename sep file) fs =
     (if file then Inr (CsvLogger filename sep False, fs) else Inl AttributeError)"

subsection \<open>The state of an experiment and the input of a tick\<close>

text \<open>
  The calls the engine makes to the user's functions and to the loggers, in the order it
  makes them, each with its argument. Functions and loggers are numbered by their
  position in the sequence given at construction.
\<close>

datatype event =
    ApplyCondition nat measurement
  | Measure measurement
  | LogStart nat np_void
  | Log nat np_void
  | LogFinish nat
  | Plot nat ndarray

text \<open>
  The attributes of \<^verbatim>\<open>Experiment\<close>, without the leading underscore. \<open>loggers\<close> is
  \<^verbatim>\<open>_log\<close>; \<open>timer_active\<close> and \<open>timer_interval\<close> are the state of \<^verbatim>\<open>_timer\<close>;
  \<open>variable_values_iter\<close> is the list of rows the iterator has not yielded yet.
  \<^verbatim>\<open>measurements_per_condition\<close> is a natural number or \<^verbatim>\<open>float('inf')\<close>. \<open>files\<close> is the
  file system the loggers write to and \<open>trace\<close> the calls made so far. \<open>heap\<close> is the
  store of the arrays: the addresses below \<open>allocated\<close> are those of the arrays created so
  far, and \<open>data\<close> is \<^verbatim>\<open>None\<close> or the address of the array \<^verbatim>\<open>_data\<close> refers to.
\<close>

type_synonym addr = nat

record experiment_state =
  loggers :: "logger list"
  conditions :: "(string \<times> pyval list) list"
  measurements_per_condition :: enat
  timer_active :: bool
  timer_interval :: rat
  data :: "addr option"
  len :: nat
  t0 :: "rat option"
  first :: bool
  measurements_for_condition :: enat
  variables :: "string list"
  variable_values :: "pyval list"
  variable_values_iter :: "pyval list list"
  files :: filesystem
  heap :: "addr \<Rightarrow> ndarray"
  allocated :: nat
  trace :: "event list"

text \<open>
  What the outside does at one tick: the reading of the monotonic clock, and the
  behaviour of \<^verbatim>\<open>_measure\<close>, of the functions of \<^verbatim>\<open>_apply_condition\<close> and of the
  functions of \<^verbatim>\<open>_plot\<close> when they are called at this tick. A hook either raises or
  returns; \<^verbatim>\<open>_measure\<close> and the condition hooks return the dictionary as they have
  changed it in place. A plot function is given a view of the array; with what it raised,
  if anything, it gives the content of the view as it has left it.
\<close>

record env =
  monotonic :: rat
  measure_f :: "measurement \<Rightarrow> exn + measurement"
  apply_condition_fs :: "(measurement \<Rightarrow> exn + measurement) list"
  plot_fs :: "(ndarray \<Rightarrow> exn option \<times> ndarray) list"

subsection \<open>Construction, start, stop\<close>

text \<open>
  \<^verbatim>\<open>Experiment.__init__\<close>; \<open>fs\<close> is the file system at that moment, and no array has been
  created.
\<close>

definition Experiment ::
  "logger list \<Rightarrow> (string \<times> pyval list) list \<Rightarrow> enat option \<Rightarrow> filesystem \<Rightarrow> experiment_state" where
  "Experiment lg conds mpc fs =
     \<lparr>loggers = lg,
      conditions = conds,
      measurements_per_condition =
        (case mpc of None \<Rightarrow> (if conds \<noteq> [] then 1 else \<infinity>) | Some n \<Rightarrow> n),
      timer_active = False,
      timer_interval = 0,
      data = None,
      len = 0,
      t0 = None,
      first = False,
      measurements_for_condition = 0,
      variables = [],
      variable_values = [],
      variable_values_iter = [],
      files = fs,
      heap = (\<lambda>p. \<lparr>descr = [], buf = []\<rparr>),
      allocated = 0,
      trace = []\<rparr>"

text \<open>
  \<^verbatim>\<open>zip(*values)\<close>: the tuples of the i-th items, as many as the shortest sequence has.
\<close>

definition zip_star :: "'a list list \<Rightarrow> 'a list list" where
  "zip_star xss =
     (if xss = [] then []
      else map (\<lambda>i. map (\<lambda>xs. xs ! i) xss) [0 ..< min_list (map length xss)])"

definition start :: "rat \<Rightarrow> rat \<Rightarrow> experiment_state \<Rightarrow> experiment_state" where
  "start now interval s =
     (let s1 =
        (if conditions s \<noteq> [] then
           s\<lparr>variables := map fst (conditions s),
             variable_values_iter := zip_star (map snd (conditions s)),
             measurements_for_condition := measurements_per_condition s\<rparr>
         else
           s\<lparr>variables := [],
             variable_values_iter := [],
             measurements_for_condition := 0\<rparr>)
      in s1\<lparr>first := True, t0 := Some now, timer_active := True,
            timer_interval := interval * 1000\<rparr>)"

text \<open>
  The loops \<^verbatim>\<open>for logger in self._log: logger.m(...)\<close>: the loggers are called in order,
  the first exception ends the loop, and what the loggers before it did stays done.
\<close>

fun for_loggers ::
  "(logger \<Rightarrow> filesystem \<Rightarrow> exn + (logger \<times> filesystem)) \<Rightarrow> (nat \<Rightarrow> event) \<Rightarrow> nat \<Rightarrow>
   logger list \<Rightarrow> filesystem \<Rightarrow> event list \<Rightarrow> exn option \<times> logger list \<times> filesystem \<times> event list" where
  "for_loggers f ev i [] fs tr = (None, [], fs, tr)"
| "for_loggers f ev i (l # ls) fs tr =
     (case f l fs of
        Inl ex \<Rightarrow> (Some ex, l # ls, fs, tr @ [ev i])
      | Inr (l', fs') \<Rightarrow>
          (case for_loggers f ev (Suc i) ls fs' (tr @ [ev i]) of
             (r, ls', fs'', tr') \<Rightarrow> (r, l' # ls', fs'', tr')))"

definition call_loggers ::
  "(logger \<Rightarrow> filesystem \<Rightarrow> exn + (logger \<times> filesystem)) \<Rightarrow> (nat \<Rightarrow> event) \<Rightarrow>
   experiment_state \<Rightarrow> exn option \<times> experiment_state" where
  "call_loggers f ev s =
     (case for_loggers f ev 0 (loggers s) (files s) (trace s) of
        (r, ls, fs, tr) \<Rightarrow> (r, s\<lparr>loggers := ls, files := fs, trace := tr\<rparr>))"

definition log_start :: "np_void \<Rightarrow> experiment_state \<Rightarrow> exn option \<times> experiment_state" where
  "log_start d s = call_loggers (logger_start d) (\<lambda>i. LogStart i d) s"

definition log :: "numpy \<Rightarrow> np_void \<Rightarrow> experiment_state \<Rightarrow> exn option \<times> experiment_state" where
  "log np d s = call_loggers (logger_log np d) (\<lambda>i. Log i d) s"

definition log_finish :: "experiment_state \<Rightarrow> exn option \<times> experiment_state" where
  "log_finish s = call_loggers logger_finish LogFinish s"

definition stop :: "experiment_state \<Rightarrow> exn option \<times> experiment_state" where
  "stop s = log_finish (s\<lparr>timer_active := False\<rparr>)"

text \<open>Creating an array: it gets the next address.\<close>

definition alloc :: "ndarray \<Rightarrow> experiment_state \<Rightarrow> addr \<times> experiment_state" where
  "alloc a s = (allocated s, s\<lparr>heap := (heap s)(allocated s := a), allocated := allocated s + 1\<rparr>)"

text \<open>
  \<^verbatim>\<open>return self._data[:self._len].copy()\<close>; subscripting \<^verbatim>\<open>None\<close> is a TypeError. The
  result is the address of the copy.
\<close>

definition get_data :: "experiment_state \<Rightarrow> (exn + addr) \<times> experiment_state" where
  "get_data s =
     (case data s of
        None \<Rightarrow> (Inl TypeError, s)
      | Some p \<Rightarrow> (case alloc (getslice (heap s p) (len s)) s of (q, s') \<Rightarrow> (Inr q, s')))"

subsection \<open>The hooks\<close>

fun for_apply_condition ::
  "nat \<Rightarrow> (measurement \<Rightarrow> exn + measurement) list \<Rightarrow> measurement \<Rightarrow> event list \<Rightarrow>
   (exn + measurement) \<times> event list" where
  "for_apply_condition i [] m tr = (Inr m, tr)"
| "for_apply_condition i (f # fs) m tr =
     (case f m of
        Inl ex \<Rightarrow> (Inl ex, tr @ [ApplyCondition i m])
      | Inr m' \<Rightarrow> for_apply_condition (Suc i) fs m' (tr @ [ApplyCondition i m]))"

definition apply_condition ::
  "env \<Rightarrow> measurement \<Rightarrow> experiment_state \<Rightarrow> (exn + measurement) \<times> experiment_state" where
  "apply_condition e m s =
     (case for_apply_condition 0 (apply_condition_fs e) m (trace s) of
        (r, tr) \<Rightarrow> (r, s\<lparr>trace := tr\<rparr>))"

definition measure_hook :: "env \<Rightarrow> measurement \<Rightarrow> experiment_state \<Rightarrow> (exn + measurement) \<times> experiment_state" where
  "measure_hook e m s = (measure_f e m, s\<lparr>trace := trace s @ [Measure m]\<rparr>)"

text \<open>
  The plot functions are called in order with the same view \<open>v\<close> of the array; each sees
  what the ones before it wrote, and what was written before an exception stays written.
  \<open>plot\<close> is the call \<^verbatim>\<open>self.plot(self._data[:n])\<close> for the array at address \<open>p\<close>: the rows
  of the view are rows of that array.
\<close>

fun for_plot ::
  "nat \<Rightarrow> (ndarray \<Rightarrow> exn option \<times> ndarray) list \<Rightarrow> ndarray \<Rightarrow> event list \<Rightarrow>
   exn option \<times> ndarray \<times> event list" where
  "for_plot i [] v tr = (None, v, tr)"
| "for_plot i (f # fs) v tr =
     (case f v of
        (Some ex, v') \<Rightarrow>
          (Some ex, v\<lparr>buf := written (descr v) (buf v) (buf v')\<rparr>, tr @ [Plot i v])
      | (None, v') \<Rightarrow>
          for_plot (Suc i) fs (v\<lparr>buf := written (descr v) (buf v) (buf v')\<rparr>) (tr @ [Plot i v]))"

definition plot :: "env \<Rightarrow> addr \<Rightarrow> nat \<Rightarrow> experiment_state \<Rightarrow> exn option \<times> experiment_state" where
  "plot e p n s =
     (case for_plot 0 (plot_fs e) (getslice (heap s p) n) (trace s) of
        (r, v, tr) \<Rightarrow>
          (r, s\<lparr>heap := (heap s)(p := setslice (heap s p) n v), trace := tr\<rparr>))"

subsection \<open>One tick: \<^verbatim>\<open>Experiment._on_timer\<close>\<close>

text \<open>
  Lines 129 to 142, the sweep. \<open>None\<close> is the StopIteration of the exhausted iterator,
  raised after the counter has been reset; otherwise the result says whether the
  condition changed.
\<close>

definition next_condition :: "experiment_state \<Rightarrow> experiment_state \<times> bool option" where
  "next_condition s =
     (if measurements_for_condition s \<ge> measurements_per_condition s then
        (let s1 = s\<lparr>measurements_for_condition := 0\<rparr> in
         case variable_values_iter s1 of
           [] \<Rightarrow> (s1, None)
         | r # rs \<Rightarrow>
             (s1\<lparr>variable_values := r, variable_values_iter := rs,
                 measurements_for_condition := measurements_for_condition s1 + 1\<rparr>, Some True))
      else (s\<lparr>measurements_for_condition := measurements_for_condition s + 1\<rparr>, Some False))"

text \<open>Lines 126 and 145 to 146: the record with the time and the condition variables.\<close>

definition bind_variables :: "rat \<Rightarrow> experiment_state \<Rightarrow> measurement" where
  "bind_variables elapsed s =
     fold (\<lambda>(variable, value). setitem variable value)
       (zip (variables s) (variable_values s)) [(''time'', PyFloat elapsed)]"

text \<open>
  Lines 153 to 176: the record is checked against the array, which is created at the
  first record, the buffer is doubled when it is full (a new array of twice the size, to
  which the rows are copied, takes the place of the old one), and the values are stored.
  The result is the stored record \<^verbatim>\<open>self._data[idx]\<close>.
\<close>

definition append_row :: "numpy \<Rightarrow> measurement \<Rightarrow> experiment_state \<Rightarrow> (exn + np_void) \<times> experiment_state" where
  "append_row np m s =
     (if m = [] then (Inl ValueError, s)
      else
        (let columns = map fst m; values = map snd m in
         (case (case data s of
                  None \<Rightarrow>
                    (case np_dtype (map (\<lambda>(name, d). (name, promote_datatype (type_py d)))
                                        (zip columns values)) of
                       Inl ex \<Rightarrow> Inl ex
                     | Inr dt \<Rightarrow>
                         (case alloc (np_empty 2 dt) s of
                            (p, s1) \<Rightarrow> Inr (p, s1\<lparr>data := Some p, len := 0\<rparr>)))
                | Some p \<Rightarrow>
                    (if columns \<noteq> names (heap s p) then Inl SchemaMismatch else Inr (p, s))) of
            Inl ex \<Rightarrow> (Inl ex, s)
          | Inr (p, s1) \<Rightarrow>
              (let buffer_size = length (buf (heap s1 p)) in
               (case (if len s1 \<ge> buffer_size then
                        (let tmp = heap s1 p in
                         (case alloc (np_empty (buffer_size * 2) (descr tmp)) s1 of
                            (q, s2) \<Rightarrow>
                              (q, s2\<lparr>data := Some q,
                                     heap := (heap s2)(q := setslice (heap s2 q) buffer_size tmp)\<rparr>)))
                      else (p, s1)) of
                  (q, s3) \<Rightarrow>
                    (let idx = len s3 in
                     (case setitem_row np (heap s3 q) idx values of
                        Inl ex \<Rightarrow> (Inl ex, s3)
                      | Inr (r, a2) \<Rightarrow>
                          (Inr (names a2, r),
                           s3\<lparr>heap := (heap s3)(q := a2), len := idx + 1\<rparr>))))))))"

text \<open>
  Lines 178 to 185: the sinks. The loggers are given \<^verbatim>\<open>self._data[idx]\<close>, a view of the row
  stored in line 175; the loggers of logger.py read its field names and its values and
  write nothing to it, and nothing runs between line 175 and these calls, so they are
  given the record \<open>d\<close> that line 175 stored. The plot functions are given the view
  \<^verbatim>\<open>self._data[:self._len]\<close> of the array \<^verbatim>\<open>_data\<close> refers to.
\<close>

definition report :: "numpy \<Rightarrow> env \<Rightarrow> np_void \<Rightarrow> experiment_state \<Rightarrow> exn option \<times> experiment_state" where
  "report np e d s =
     (case (if first s then log_start d s else (None, s)) of
        (Some ex, s1) \<Rightarrow> (Some ex, s1)
      | (None, s1) \<Rightarrow>
          (case log np d s1 of
             (Some ex, s2) \<Rightarrow> (Some ex, s2)
           | (None, s2) \<Rightarrow>
               (case data s2 of
                  None \<Rightarrow> (Some TypeError, s2)
                | Some p \<Rightarrow>
                    (case plot e p (len s2) s2 of
                       (Some ex, s3) \<Rightarrow> (Some ex, s3)
                     | (None, s3) \<Rightarrow> (None, s3\<lparr>first := False\<rparr>)))))"

text \<open>
  Lines 126 to 151, up to the call of the measurement function. The tick ends there
  when the sweep is exhausted (\<^verbatim>\<open>self.stop(); return\<close>, which raises what a logger's
  \<^verbatim>\<open>finish\<close> raises) or when a hook raises; otherwise the measurement function has
  returned the record. Before \<^verbatim>\<open>start\<close> has set \<^verbatim>\<open>_t0\<close>, the subtraction in line 126 is
  a TypeError.
\<close>

datatype acquired = Returned | Raised exn | Record measurement

definition acquire :: "env \<Rightarrow> experiment_state \<Rightarrow> acquired \<times> experiment_state" where
  "acquire e s =
     (case t0 s of
        None \<Rightarrow> (Raised TypeError, s)
      | Some t \<Rightarrow>
          (case next_condition s of
             (s1, None) \<Rightarrow>
               (case stop s1 of
                  (None, s2) \<Rightarrow> (Returned, s2)
                | (Some ex, s2) \<Rightarrow> (Raised ex, s2))
           | (s1, Some condition_changed) \<Rightarrow>
               (case (if condition_changed
                      then apply_condition e (bind_variables (monotonic e - t) s1) s1
                      else (Inr (bind_variables (monotonic e - t) s1), s1)) of
                  (Inl ex, s2) \<Rightarrow> (Raised ex, s2)
                | (Inr m2, s2) \<Rightarrow>
                    (case measure_hook e m2 s2 of
                       (Inl ex, s3) \<Rightarrow> (Raised ex, s3)
                     | (Inr m3, s3) \<Rightarrow> (Record m3, s3)))))"

text \<open>The body of the \<^verbatim>\<open>try\<close>.\<close>

definition on_timer_try :: "numpy \<Rightarrow> env \<Rightarrow> experiment_state \<Rightarrow> exn option \<times> experiment_state" where
  "on_timer_try np e s =
     (case acquire e s of
        (Returned, s1) \<Rightarrow> (None, s1)
      | (Raised ex, s1) \<Rightarrow> (Some ex, s1)
      | (Record m, s1) \<Rightarrow>
          (case append_row np m s1 of
             (Inl ex, s2) \<Rightarrow> (Some ex, s2)
           | (Inr d, s2) \<Rightarrow> report np e d s2))"

text \<open>\<^verbatim>\<open>except: self._timer.stop(); raise\<close>\<close>

definition on_timer :: "numpy \<Rightarrow> env \<Rightarrow> experiment_state \<Rightarrow> exn option \<times> experiment_state" where
  "on_timer np e s =
     (case on_timer_try np e s of
        (None, s') \<Rightarrow> (None, s')
      | (Some ex, s') \<Rightarrow> (Some ex, s'\<lparr>timer_active := False\<rparr>))"


section \<open>Notions used in the statements\<close>

definition fixed :: "experiment_state \<Rightarrow> (string \<times> pyval list) list \<times> enat \<times> string list \<times> rat \<times> rat option" where
  "fixed s = (conditions s, measurements_per_condition s, variables s, timer_interval s, t0 s)"

definition sweep :: "experiment_state \<Rightarrow> enat \<times> pyval list \<times> pyval list list" where
  "sweep s = (measurements_for_condition s, variable_values s, variable_values_iter s)"

text \<open>
  The store with the two attributes that refer to it; the array \<^verbatim>\<open>_data\<close> refers to, its
  capacity, and its first \<open>len\<close> rows, which are the rows of the table.
\<close>

definition store :: "experiment_state \<Rightarrow> addr option \<times> nat \<times> (addr \<Rightarrow> ndarray) \<times> nat" where
  "store s = (data s, len s, heap s, allocated s)"

definition array :: "experiment_state \<Rightarrow> ndarray option" where
  "array s = (case data s of None \<Rightarrow> None | Some p \<Rightarrow> Some (heap s p))"

definition capacity :: "experiment_state \<Rightarrow> nat" where
  "capacity s = (case data s of None \<Rightarrow> 0 | Some p \<Rightarrow> length (buf (heap s p)))"

definition rows :: "experiment_state \<Rightarrow> row option list" where
  "rows s = (case data s of None \<Rightarrow> [] | Some p \<Rightarrow> take (len s) (buf (heap s p)))"

text \<open>
  The invariant of the table: without an array the length is 0; otherwise the array has
  been created, the length is at most the capacity, which is positive, and there is a
  column.
\<close>

definition table_inv :: "experiment_state \<Rightarrow> bool" where
  "table_inv s =
     (case data s of
        None \<Rightarrow> len s = 0
      | Some p \<Rightarrow> p < allocated s \<and> len s \<le> length (buf (heap s p)) \<and>
                  0 < length (buf (heap s p)) \<and> descr (heap s p) \<noteq> [])"

text \<open>The fields of the array that line 160 creates for the record \<open>m\<close>.\<close>

definition column_types :: "measurement \<Rightarrow> (string \<times> dtype) list" where
  "column_types m = field_names 0 (map (\<lambda>(name, d). (name, promote_datatype (type_py d))) m)"

text \<open>
  The fields a record meets in the state \<open>s\<close>: those of the array, and those made from
  the record itself when there is no array yet.
\<close>

definition schema :: "experiment_state \<Rightarrow> measurement \<Rightarrow> (string \<times> dtype) list" where
  "schema s m = (case data s of None \<Rightarrow> column_types m | Some p \<Rightarrow> descr (heap s p))"

text \<open>
  A record is \<open>storable\<close> in an array with the fields \<open>dt\<close>, as the row \<open>r\<close>, when it is
  not empty, these fields have distinct names, the record has these names as its column
  names in the same order, and each of its values converts to the type of its column.
\<close>

definition storable :: "numpy \<Rightarrow> (string \<times> dtype) list \<Rightarrow> measurement \<Rightarrow> row \<Rightarrow> bool" where
  "storable np dt m r \<longleftrightarrow>
     m \<noteq> [] \<and> distinct (map fst dt) \<and> map fst m = map fst dt \<and>
     convert_row np (map snd dt) (map snd m) = Inr r"

text \<open>
  An address is \<open>foreign\<close> to the experiment when it is that of an array that exists and
  is not the one \<^verbatim>\<open>_data\<close> refers to.
\<close>

definition foreign :: "experiment_state \<Rightarrow> addr \<Rightarrow> bool" where
  "foreign s q \<longleftrightarrow> q < allocated s \<and> data s \<noteq> Some q"

text \<open>A tick whose plot functions leave the view they are given as it is.\<close>

definition read_only :: "env \<Rightarrow> bool" where
  "read_only e \<longleftrightarrow> (\<forall>f \<in> set (plot_fs e). \<forall>v. snd (f v) = v)"

text \<open>
  The array that takes the place of a full array \<open>a\<close> (lines 170 to 172), and the exact
  condition under which the storing step stores the record \<open>m\<close>, as the row \<open>r\<close>: the
  record is not empty; it has the column names of the array in their order or, without
  an array, gives fields with distinct names; and its values convert to the types of the
  fields.
\<close>

definition doubled :: "ndarray \<Rightarrow> ndarray" where
  "doubled a = a\<lparr>buf := buf a @ replicate (length (buf a)) None\<rparr>"

definition accepts :: "numpy \<Rightarrow> experiment_state \<Rightarrow> measurement \<Rightarrow> row \<Rightarrow> bool" where
  "accepts np s m r \<longleftrightarrow>
     m \<noteq> [] \<and>
     (case data s of
        None \<Rightarrow> distinct (map fst (column_types m))
      | Some p \<Rightarrow> map fst m = names (heap s p)) \<and>
     convert_row np (map snd (schema s m)) (map snd m) = Inr r"

text \<open>
  The rows of the table are \<open>typed\<close> when each has been assigned and holds, in each
  column, a cell of the type of the column.
\<close>

definition typed_inv :: "experiment_state \<Rightarrow> bool" where
  "typed_inv s =
     (case data s of None \<Rightarrow> True | Some p \<Rightarrow> list_all (row_typed (descr (heap s p))) (rows s))"

text \<open>
  What the sinks may have done to the store between \<open>s\<close> and \<open>s'\<close>: written to the rows
  of the table, and nothing else.
\<close>

definition rewritten :: "experiment_state \<Rightarrow> experiment_state \<Rightarrow> bool" where
  "rewritten s s' \<longleftrightarrow>
     data s' = data s \<and> len s' = len s \<and> allocated s' = allocated s \<and>
     (\<forall>q. data s \<noteq> Some q \<longrightarrow> heap s' q = heap s q) \<and>
     (\<forall>p. data s = Some p \<longrightarrow>
        descr (heap s' p) = descr (heap s p) \<and>
        length (buf (heap s' p)) = length (buf (heap s p)) \<and>
        drop (len s) (buf (heap s' p)) = drop (len s) (buf (heap s p)))"

text \<open>
  The sample a tick collects in the state \<open>s\<close>: the row made of the record that the
  measurement function returned, when there is one and the storing step accepts it.
\<close>

definition collected :: "numpy \<Rightarrow> env \<Rightarrow> experiment_state \<Rightarrow> row option list" where
  "collected np e s =
     (case acquire e s of
        (Record m, s1) \<Rightarrow>
          (if m \<noteq> [] \<and>
              (case data s of
                 None \<Rightarrow> distinct (map fst (column_types m))
               | Some p \<Rightarrow> map fst m = names (heap s p))
           then (case convert_row np (map snd (schema s m)) (map snd m) of
                   Inl ex \<Rightarrow> []
                 | Inr r \<Rightarrow> [Some r])
           else [])
      | (q, s1) \<Rightarrow> [])"





text \<open>
  Concrete inputs for the closed theorems. \<open>numpy_exact\<close> is an instance of the
  parameters that converts every int exactly and parses no string; it is only used with
  small ints and with the string \<^verbatim>\<open>'abc'\<close>, where numpy does the same, and no statement
  depends on its \<open>str_float\<close> and \<open>str_int\<close>. \<open>measure_current\<close> is the measurement
  function of the package documentation, \<^verbatim>\<open>measurement['current'] = 0.0\<close>, at clock
  reading \<open>t\<close>, with no condition hook and no plot function.
\<close>

definition numpy_exact :: numpy where
  "numpy_exact =
     \<lparr>float_of_int = (\<lambda>n. Some (of_int n)),
      float_of_str = (\<lambda>s. None),
      str_float = (\<lambda>f. ''0.0''),
      str_int = (\<lambda>n. ''0'')\<rparr>"

definition measure_current :: "rat \<Rightarrow> env" where
  "measure_current t =
     \<lparr>monotonic = t,
      measure_f = (\<lambda>m. Inr (setitem ''current'' (PyFloat 0) m)),
      apply_condition_fs = [],
      plot_fs = []\<rparr>"

text \<open>Two condition variables with value sequences of lengths 2 and 1.\<close>

definition unequal_conditions :: "(string \<times> pyval list) list" where
  "unequal_conditions = [(''a'', [PyInt 1, PyInt 2]), (''b'', [PyInt 10])]"




text \<open>
  The storing step for a sequence of records, one after the other; and five records with
  the columns \<^verbatim>\<open>time\<close> and \<^verbatim>\<open>current\<close>, with the rows they make.
\<close>

fun append_rows :: "numpy \<Rightarrow> measurement list \<Rightarrow> experiment_state \<Rightarrow> experiment_state" where
  "append_rows np [] s = s"
| "append_rows np (m # ms) s = append_rows np ms (snd (append_row np m s))"

definition five_records :: "measurement list" where
  "five_records =
     map (\<lambda>n. [(''time'', PyFloat (of_nat n)), (''current'', PyInt (int n))]) [1, 2, 3, 4, 5]"

definition five_rows :: "row list" where
  "five_rows = map (\<lambda>n. [CFloat (of_nat n), CFloat (of_nat n)]) [1, 2, 3, 4, 5]"

text \<open>
  The input of a tick whose measurement function is \<^verbatim>\<open>measurement[k] = v\<close>, at clock reading
  \<open>t\<close>, and of one whose measurement function empties the record
  (\<^verbatim>\<open>measurement.clear()\<close>); and the state after a first tick that has measured the int 1 for
  the column \<^verbatim>\<open>x\<close>.
\<close>

definition measure_key :: "string \<Rightarrow> pyval \<Rightarrow> rat \<Rightarrow> env" where
  "measure_key k v t =
     \<lparr>monotonic = t,
      measure_f = (\<lambda>m. Inr (setitem k v m)),
      apply_condition_fs = [],
      plot_fs = []\<rparr>"

definition measure_nothing :: "rat \<Rightarrow> env" where
  "measure_nothing t =
     \<lparr>monotonic = t,
      measure_f = (\<lambda>m. Inr []),
      apply_condition_fs = [],
      plot_fs = []\<rparr>"

definition int_sample :: experiment_state where
  "int_sample =
     snd (on_timer numpy_exact (measure_key ''x'' (PyInt 1) 1)
            (start 0 0 (Experiment [] [] None Map.empty)))"



section \<open>Lemmas\<close>

subsection \<open>The store\<close>

lemma store_eqD:
  assumes "store s' = store s"
  shows "data s' = data s" "len s' = len s" "heap s' = heap s" "allocated s' = allocated s"
    "rows s' = rows s" "table_inv s' = table_inv s" "array s' = array s"
    "capacity s' = capacity s" "schema s' = schema s" "foreign s' = foreign s"
proof -
  from assms show d: "data s' = data s" and l: "len s' = len s" and h: "heap s' = heap s"
    and a: "allocated s' = allocated s"
    by (simp_all add: store_def)
  from d l h show "rows s' = rows s" by (simp add: rows_def split: option.splits)
  from d l h a show "table_inv s' = table_inv s" by (simp add: table_inv_def split: option.splits)
  from d h show "array s' = array s" by (simp add: array_def split: option.splits)
  from d h show "capacity s' = capacity s" by (simp add: capacity_def split: option.splits)
  from d h show "schema s' = schema s" by (intro ext) (simp add: schema_def split: option.splits)
  from d a show "foreign s' = foreign s" by (intro ext) (simp add: foreign_def)
qed

lemma store_timer_update [simp]:
  "store (s\<lparr>timer_active := b\<rparr>) = store s" "fixed (s\<lparr>timer_active := b\<rparr>) = fixed s"
  "sweep (s\<lparr>timer_active := b\<rparr>) = sweep s"
  by (simp_all add: store_def fixed_def sweep_def)


subsection \<open>The loggers\<close>

lemma for_loggers_length:
  "for_loggers f ev i ls fs tr = (r, ls', fs', tr') \<Longrightarrow> length ls' = length ls"
  by (induction ls arbitrary: i fs tr ls' fs' tr' r) (auto split: sum.splits prod.splits)

lemma for_loggers_trace_None:
  "for_loggers f ev i ls fs tr = (None, ls', fs', tr') \<Longrightarrow> tr' = tr @ map ev [i ..< i + length ls]"
proof (induction ls arbitrary: i fs tr ls' fs' tr')
  case Nil
  then show ?case by simp
next
  case (Cons l ls)
  from Cons.prems obtain l1 fs1 ls1 where
    f: "f l fs = Inr (l1, fs1)" and
    rest: "for_loggers f ev (Suc i) ls fs1 (tr @ [ev i]) = (None, ls1, fs', tr')"
    by (auto split: sum.splits prod.splits)
  from Cons.IH [OF rest] show ?case by (simp add: upt_rec)
qed

lemma for_loggers_trace:
  "for_loggers f ev i ls fs tr = (r, ls', fs', tr') \<Longrightarrow>
   \<exists>k \<le> length ls. tr' = tr @ map ev [i ..< i + k]"
proof (induction ls arbitrary: i fs tr ls' fs' tr' r)
  case Nil
  then show ?case by simp
next
  case (Cons l ls)
  show ?case
  proof (cases "f l fs")
    case (Inl ex)
    with Cons.prems have "tr' = tr @ map ev [i ..< i + 1]" by simp
    then show ?thesis by (metis One_nat_def Suc_leI length_Cons zero_less_Suc)
  next
    case (Inr p)
    obtain l1 fs1 where p: "p = (l1, fs1)" by (cases p)
    from Cons.prems Inr p obtain ls1 where
      rest: "for_loggers f ev (Suc i) ls fs1 (tr @ [ev i]) = (r, ls1, fs', tr')"
      by (auto split: prod.splits)
    from Cons.IH [OF rest] obtain k where k: "k \<le> length ls" "tr' = (tr @ [ev i]) @ map ev [Suc i ..< Suc i + k]"
      by blast
    then have "tr' = tr @ map ev [i ..< i + Suc k]" by (simp add: upt_rec)
    with k(1) show ?thesis by (metis Suc_le_mono length_Cons)
  qed
qed

lemma call_loggers_frame:
  "call_loggers f ev s = (r, s') \<Longrightarrow>
   fixed s' = fixed s \<and> store s' = store s \<and> sweep s' = sweep s \<and>
   first s' = first s \<and> timer_active s' = timer_active s"
  by (auto simp: call_loggers_def fixed_def store_def sweep_def split: prod.splits)

lemma call_loggers_trace_None:
  "call_loggers f ev s = (None, s') \<Longrightarrow>
   trace s' = trace s @ map ev [0 ..< length (loggers s)] \<and> length (loggers s') = length (loggers s)"
  by (auto simp: call_loggers_def split: prod.splits dest: for_loggers_trace_None for_loggers_length)

lemma call_loggers_trace:
  "call_loggers f ev s = (r, s') \<Longrightarrow>
   (\<exists>k \<le> length (loggers s). trace s' = trace s @ map ev [0 ..< k]) \<and> length (loggers s') = length (loggers s)"
  using for_loggers_trace [of f ev 0 "loggers s" "files s" "trace s"]
        for_loggers_length [of f ev 0 "loggers s" "files s" "trace s"]
  by (auto simp: call_loggers_def split: prod.splits)

lemma for_loggers_finish_files:
  "for_loggers logger_finish ev i ls fs tr = (r, ls', fs', tr') \<Longrightarrow> fs' = fs"
proof (induction ls arbitrary: i fs tr ls' fs' tr' r)
  case Nil
  then show ?case by simp
next
  case (Cons l ls)
  then show ?case
    by (cases l) (auto split: sum.splits prod.splits if_splits)
qed

lemma stop_frame:
  "stop s = (r, s') \<Longrightarrow>
   fixed s' = fixed s \<and> store s' = store s \<and> sweep s' = sweep s \<and>
   first s' = first s \<and> \<not> timer_active s' \<and> files s' = files s"
  by (auto simp: stop_def log_finish_def call_loggers_def fixed_def store_def sweep_def
           split: prod.splits dest!: for_loggers_finish_files)

subsection \<open>The hooks\<close>


lemma apply_condition_frame:
  "apply_condition e m s = (r, s') \<Longrightarrow>
   fixed s' = fixed s \<and> store s' = store s \<and> sweep s' = sweep s \<and>
   first s' = first s \<and> timer_active s' = timer_active s \<and>
   loggers s' = loggers s \<and> files s' = files s"
  by (auto simp: apply_condition_def fixed_def store_def sweep_def split: prod.splits)


lemma measure_hook_frame:
  "measure_hook e m s = (r, s') \<Longrightarrow>
   fixed s' = fixed s \<and> store s' = store s \<and> sweep s' = sweep s \<and>
   first s' = first s \<and> timer_active s' = timer_active s \<and>
   loggers s' = loggers s \<and> files s' = files s \<and> trace s' = trace s @ [Measure m] \<and>
   r = measure_f e m"
  by (auto simp: measure_hook_def fixed_def store_def sweep_def)

subsection \<open>The plot functions and the view\<close>

lemma length_written: "length (written dt cs ws) = length cs"
  by (induction dt cs ws rule: written.induct) simp_all

lemma written_typed:
  "list_all (row_typed dt) cs \<Longrightarrow> list_all (row_typed dt) (written dt cs ws)"
  by (induction dt cs ws rule: written.induct) simp_all

lemma written_same: "written dt cs cs = cs"
  by (induction cs) simp_all

lemma for_plot_view:
  "for_plot i fs v tr = (r, v', tr') \<Longrightarrow>
   descr v' = descr v \<and> length (buf v') = length (buf v) \<and>
   (list_all (row_typed (descr v)) (buf v) \<longrightarrow> list_all (row_typed (descr v)) (buf v')) \<and>
   ((\<forall>f \<in> set fs. \<forall>v. snd (f v) = v) \<longrightarrow> v' = v)"
proof (induction fs arbitrary: i v tr)
  case Nil
  then show ?case by simp
next
  case (Cons f fs)
  obtain r1 w where fv: "f v = (r1, w)" by (cases "f v")
  define v1 where "v1 = v\<lparr>buf := written (descr v) (buf v) (buf w)\<rparr>"
  have v1: "descr v1 = descr v" "length (buf v1) = length (buf v)"
    "list_all (row_typed (descr v)) (buf v) \<longrightarrow> list_all (row_typed (descr v)) (buf v1)"
    by (simp_all add: v1_def length_written written_typed)
  have ro: "v1 = v" if "\<forall>g \<in> set (f # fs). \<forall>v. snd (g v) = v"
  proof -
    from that have "snd (f v) = v" by simp
    with fv have "w = v" by simp
    then show ?thesis by (simp add: v1_def written_same)
  qed
  show ?case
  proof (cases r1)
    case (Some ex)
    with Cons.prems fv have "v' = v1" by (simp add: v1_def)
    with v1 ro show ?thesis by blast
  next
    case None
    with Cons.prems fv have "for_plot (Suc i) fs v1 (tr @ [Plot i v]) = (r, v', tr')"
      by (simp add: v1_def)
    from Cons.IH [OF this] v1 ro show ?thesis by auto
  qed
qed

lemma for_plot_trace:
  "for_plot i fs v tr = (r, v', tr') \<Longrightarrow>
   \<exists>evs. tr' = tr @ evs \<and> (\<forall>ev \<in> set evs. \<exists>j w. ev = Plot j w)"
proof (induction fs arbitrary: i v tr)
  case Nil
  then show ?case by simp
next
  case (Cons f fs)
  obtain r1 w where fv: "f v = (r1, w)" by (cases "f v")
  show ?case
  proof (cases r1)
    case (Some ex)
    with Cons.prems fv show ?thesis by auto
  next
    case None
    with Cons.prems fv
    have "for_plot (Suc i) fs (v\<lparr>buf := written (descr v) (buf v) (buf w)\<rparr>) (tr @ [Plot i v]) = (r, v', tr')"
      by simp
    from Cons.IH [OF this] obtain evs where
      "tr' = (tr @ [Plot i v]) @ evs" "\<forall>ev \<in> set evs. \<exists>j w. ev = Plot j w"
      by blast
    then have "tr' = tr @ (Plot i v # evs) \<and> (\<forall>ev \<in> set (Plot i v # evs). \<exists>j w. ev = Plot j w)"
      by simp
    then show ?thesis by blast
  qed
qed

text \<open>
  A call of the plot functions writes to the rows of the view and to nothing else: the
  other arrays, the rows of the array beyond the view, its fields and its size stay.
\<close>

lemma plot_frame:
  assumes "plot e p n s = (r, s')"
  shows "fixed s' = fixed s \<and> sweep s' = sweep s \<and> first s' = first s \<and>
         timer_active s' = timer_active s \<and> loggers s' = loggers s \<and> files s' = files s \<and>
         data s' = data s \<and> len s' = len s \<and> allocated s' = allocated s \<and>
         (\<forall>q. q \<noteq> p \<longrightarrow> heap s' q = heap s q) \<and>
         descr (heap s' p) = descr (heap s p) \<and>
         length (buf (heap s' p)) = length (buf (heap s p)) \<and>
         drop n (buf (heap s' p)) = drop n (buf (heap s p)) \<and>
         (list_all (row_typed (descr (heap s p))) (take n (buf (heap s p))) \<longrightarrow>
          list_all (row_typed (descr (heap s p))) (take n (buf (heap s' p)))) \<and>
         (read_only e \<longrightarrow> heap s' = heap s)"
proof -
  obtain v tr where fp: "for_plot 0 (plot_fs e) (getslice (heap s p) n) (trace s) = (r, v, tr)"
    and s': "s' = s\<lparr>heap := (heap s)(p := setslice (heap s p) n v), trace := tr\<rparr>"
    using assms by (auto simp: plot_def split: prod.splits)
  from for_plot_view [OF fp]
  have v: "descr v = descr (heap s p)" "length (buf v) = length (take n (buf (heap s p)))"
    "list_all (row_typed (descr (heap s p))) (take n (buf (heap s p))) \<longrightarrow>
     list_all (row_typed (descr (heap s p))) (buf v)"
    "read_only e \<longrightarrow> v = getslice (heap s p) n"
    by (simp_all add: getslice_def read_only_def)
  from v(2) have le: "length (buf v) \<le> n" by simp
  have h: "heap s' p = setslice (heap s p) n v" using s' by simp
  have b: "buf (heap s' p) = buf v @ drop n (buf (heap s p))"
    using le by (simp add: h setslice_def)
  have l: "length (buf (heap s' p)) = length (buf (heap s p))"
    using v(2) by (simp add: b)
  have t: "take n (buf (heap s' p)) = buf v"
  proof (cases "n \<le> length (buf (heap s p))")
    case True
    with v(2) have "length (buf v) = n" by simp
    then show ?thesis by (simp add: b)
  next
    case False
    then have "drop n (buf (heap s p)) = []" by simp
    with le show ?thesis by (simp add: b)
  qed
  have d: "drop n (buf (heap s' p)) = drop n (buf (heap s p))"
  proof (cases "n \<le> length (buf (heap s p))")
    case True
    with v(2) have "length (buf v) = n" by simp
    then show ?thesis by (simp add: b)
  next
    case False
    then have "drop n (buf (heap s p)) = []" "n \<ge> length (buf (heap s' p))" using l by simp_all
    then show ?thesis by simp
  qed
  have ro: "heap s' = heap s" if "read_only e"
  proof -
    from that v(4) have "v = getslice (heap s p) n" by simp
    then have "setslice (heap s p) n v = heap s p" by (simp add: setslice_def getslice_def)
    with s' show ?thesis by simp
  qed
  have "descr (heap s' p) = descr (heap s p)" by (simp add: h setslice_def)
  moreover have "\<forall>q. q \<noteq> p \<longrightarrow> heap s' q = heap s q" using s' by simp
  moreover have "fixed s' = fixed s \<and> sweep s' = sweep s \<and> first s' = first s \<and>
         timer_active s' = timer_active s \<and> loggers s' = loggers s \<and> files s' = files s \<and>
         data s' = data s \<and> len s' = len s \<and> allocated s' = allocated s"
    using s' by (simp add: fixed_def sweep_def)
  ultimately show ?thesis using l d t v(3) ro by simp
qed

lemma plot_trace:
  "plot e p n s = (r, s') \<Longrightarrow>
   \<exists>evs. trace s' = trace s @ evs \<and> (\<forall>ev \<in> set evs. \<exists>j w. ev = Plot j w)"
  using for_plot_trace [of 0 "plot_fs e" "getslice (heap s p) n" "trace s"]
  by (auto simp: plot_def split: prod.splits)

subsection \<open>The sweep\<close>

lemma next_condition_frame:
  "next_condition s = (s1, r) \<Longrightarrow>
   fixed s1 = fixed s \<and> store s1 = store s \<and>
   first s1 = first s \<and> timer_active s1 = timer_active s \<and>
   loggers s1 = loggers s \<and> files s1 = files s \<and> trace s1 = trace s"
  by (auto simp: next_condition_def fixed_def store_def Let_def split: if_splits list.splits)

lemma acquire_changed:
  assumes "t0 s = Some t" "next_condition s = (s1, Some True)"
    and "apply_condition e (bind_variables (monotonic e - t) s1) s1 = (r2, s2)"
  shows "acquire e s =
     (case r2 of
        Inl ex \<Rightarrow> (Raised ex, s2)
      | Inr m2 \<Rightarrow>
          (case measure_f e m2 of
             Inl ex \<Rightarrow> (Raised ex, s2\<lparr>trace := trace s2 @ [Measure m2]\<rparr>)
           | Inr m3 \<Rightarrow> (Record m3, s2\<lparr>trace := trace s2 @ [Measure m2]\<rparr>)))"
  using assms by (simp add: acquire_def measure_hook_def split: sum.splits)

lemma acquire_unchanged:
  assumes "t0 s = Some t" "next_condition s = (s1, Some False)"
  shows "acquire e s =
     (case measure_f e (bind_variables (monotonic e - t) s1) of
        Inl ex \<Rightarrow> (Raised ex, s1\<lparr>trace := trace s1 @ [Measure (bind_variables (monotonic e - t) s1)]\<rparr>)
      | Inr m3 \<Rightarrow> (Record m3, s1\<lparr>trace := trace s1 @ [Measure (bind_variables (monotonic e - t) s1)]\<rparr>))"
  using assms by (simp add: acquire_def measure_hook_def split: sum.splits)

lemma acquire_exhausted:
  assumes "t0 s = Some t" "next_condition s = (s1, None)" "stop s1 = (r2, s2)"
  shows "acquire e s = (case r2 of None \<Rightarrow> (Returned, s2) | Some ex \<Rightarrow> (Raised ex, s2))"
  using assms by (simp add: acquire_def split: option.splits)

lemma acquire_frame:
  assumes "acquire e s = (r, s')"
  shows "fixed s' = fixed s \<and> store s' = store s \<and> first s' = first s \<and> files s' = files s"
proof (cases "t0 s")
  case None
  with assms show ?thesis by (simp add: acquire_def)
next
  case (Some t)
  obtain s1 c where nc: "next_condition s = (s1, c)" by (cases "next_condition s")
  note f1 = next_condition_frame [OF nc]
  show ?thesis
  proof (cases c)
    case None
    obtain r2 s2 where st: "stop s1 = (r2, s2)" by (cases "stop s1")
    have nc': "next_condition s = (s1, None)" using nc None by simp
    from assms acquire_exhausted [OF Some nc' st, of e] have "s' = s2"
      by (auto split: option.splits)
    with stop_frame [OF st] f1 show ?thesis by simp
  next
    case c: (Some ch)
    show ?thesis
    proof (cases ch)
      case True
      obtain r2 s2 where ac: "apply_condition e (bind_variables (monotonic e - t) s1) s1 = (r2, s2)"
        by (cases "apply_condition e (bind_variables (monotonic e - t) s1) s1")
      note f2 = apply_condition_frame [OF ac]
      have nc': "next_condition s = (s1, Some True)" using nc c True by simp
      from assms acquire_changed [OF Some nc' ac]
      have "s' = s2 \<or> (\<exists>tr. s' = s2\<lparr>trace := tr\<rparr>)"
        by (auto split: sum.splits)
      with f1 f2 show ?thesis by (auto simp: fixed_def store_def)
    next
      case False
      have nc': "next_condition s = (s1, Some False)" using nc c False by simp
      from assms acquire_unchanged [OF Some nc', of e]
      have "\<exists>tr. s' = s1\<lparr>trace := tr\<rparr>"
        by (auto split: sum.splits)
      with f1 show ?thesis by (auto simp: fixed_def store_def)
    qed
  qed
qed


subsection \<open>The storing step\<close>

lemma np_empty_sel: "buf (np_empty n dt) = replicate n None" "descr (np_empty n dt) = dt"
  by (simp_all add: np_empty_def)

lemma setslice_np_empty:
  "setslice (np_empty (length (buf a) * 2) (descr a)) (length (buf a)) a = doubled a"
  by (cases a) (simp add: setslice_def np_empty_def doubled_def)

lemma zip_fst_snd: "zip (map fst m) (map snd m) = m"
  by (induction m) auto

lemma append_row_frame:
  "append_row np m s = (r, s') \<Longrightarrow>
   fixed s' = fixed s \<and> sweep s' = sweep s \<and> first s' = first s \<and>
   timer_active s' = timer_active s \<and> loggers s' = loggers s \<and> files s' = files s \<and>
   trace s' = trace s"
  by (auto simp: append_row_def Let_def fixed_def sweep_def alloc_def
           split: if_splits option.splits sum.splits prod.splits)

lemma append_row_existing:
  assumes "data s = Some p" "m \<noteq> []"
  shows "append_row np m s =
    (if map fst m \<noteq> names (heap s p) then (Inl SchemaMismatch, s)
     else if length (buf (heap s p)) \<le> len s then
       (case setitem_row np (doubled (heap s p)) (len s) (map snd m) of
          Inl ex \<Rightarrow>
            (Inl ex,
             s\<lparr>data := Some (allocated s),
               heap := (heap s)(allocated s := doubled (heap s p)),
               allocated := allocated s + 1\<rparr>)
        | Inr (r, a2) \<Rightarrow>
            (Inr (names a2, r),
             s\<lparr>data := Some (allocated s), len := len s + 1,
               heap := (heap s)(allocated s := a2),
               allocated := allocated s + 1\<rparr>))
     else
       (case setitem_row np (heap s p) (len s) (map snd m) of
          Inl ex \<Rightarrow> (Inl ex, s)
        | Inr (r, a2) \<Rightarrow>
            (Inr (names a2, r), s\<lparr>len := len s + 1, heap := (heap s)(p := a2)\<rparr>)))"
  using assms
  by (simp add: append_row_def Let_def alloc_def setslice_np_empty np_empty_sel
           split: sum.splits prod.splits)

lemma append_row_new:
  assumes "data s = None" "m \<noteq> []"
  shows "append_row np m s =
    (if \<not> distinct (map fst (column_types m)) then (Inl ValueError, s)
     else
       (case setitem_row np (np_empty 2 (column_types m)) 0 (map snd m) of
          Inl ex \<Rightarrow>
            (Inl ex,
             s\<lparr>data := Some (allocated s), len := 0,
               heap := (heap s)(allocated s := np_empty 2 (column_types m)),
               allocated := allocated s + 1\<rparr>)
        | Inr (r, a2) \<Rightarrow>
            (Inr (names a2, r),
             s\<lparr>data := Some (allocated s), len := 0 + 1,
               heap := (heap s)(allocated s := a2),
               allocated := allocated s + 1\<rparr>)))"
  using assms
  by (simp add: append_row_def Let_def zip_fst_snd np_dtype_def np_empty_sel alloc_def
                column_types_def [symmetric] split: sum.splits prod.splits)

lemma setitem_row_Inr:
  "setitem_row np a idx vs = Inr (r, a2) \<Longrightarrow>
   idx < length (buf a) \<and> convert_row np (map snd (descr a)) vs = Inr r \<and>
   a2 = a\<lparr>buf := (buf a)[idx := Some r]\<rparr>"
  by (auto simp: setitem_row_def split: if_splits sum.splits)

lemma take_update_last:
  "n < length xs \<Longrightarrow> take (Suc n) (xs[n := x]) = take n xs @ [x]"
  by (simp add: take_Suc_conv_app_nth)

text \<open>
  What the storing step does to the table, whatever the record: the invariant stays, the
  rows stay and the stored row comes after them, the fields stay, the arrays that are
  not the experiment's stay as they are, and the capacity is 2 for a new array, twice what
  it was when the record has the columns of a full array, and what it was otherwise.
\<close>

lemma append_row_table:
  assumes inv: "table_inv s" and ap: "append_row np m s = (r, s')"
  shows "table_inv s'"
    and "rows s' = rows s @ (case r of Inl ex \<Rightarrow> [] | Inr d \<Rightarrow> [Some (snd d)])"
    and "len s' = len s + (case r of Inl ex \<Rightarrow> 0 | Inr d \<Rightarrow> 1)"
    and "allocated s \<le> allocated s'"
    and "\<forall>q. foreign s q \<longrightarrow> foreign s' q \<and> heap s' q = heap s q"
    and "\<forall>p. data s = Some p \<longrightarrow> (\<exists>p'. data s' = Some p' \<and> descr (heap s' p') = descr (heap s p))"
    and "capacity s' =
           (case data s of
              None \<Rightarrow> (if m \<noteq> [] \<and> distinct (map fst (column_types m)) then 2 else 0)
            | Some p \<Rightarrow>
                (if m \<noteq> [] \<and> map fst m = names (heap s p) \<and> capacity s \<le> len s
                 then 2 * capacity s else capacity s))"
    and "case r of
           Inl ex \<Rightarrow> \<not> (\<exists>row. accepts np s m row)
         | Inr d \<Rightarrow> accepts np s m (snd d) \<and> fst d = map fst (schema s m) \<and>
                      (\<exists>p'. data s' = Some p' \<and> descr (heap s' p') = schema s m)"
proof -
  have "table_inv s' \<and>
        rows s' = rows s @ (case r of Inl ex \<Rightarrow> [] | Inr d \<Rightarrow> [Some (snd d)]) \<and>
        len s' = len s + (case r of Inl ex \<Rightarrow> 0 | Inr d \<Rightarrow> 1) \<and>
        allocated s \<le> allocated s' \<and>
        (\<forall>q. foreign s q \<longrightarrow> foreign s' q \<and> heap s' q = heap s q) \<and>
        (\<forall>p. data s = Some p \<longrightarrow> (\<exists>p'. data s' = Some p' \<and> descr (heap s' p') = descr (heap s p))) \<and>
        capacity s' =
           (case data s of
              None \<Rightarrow> (if m \<noteq> [] \<and> distinct (map fst (column_types m)) then 2 else 0)
            | Some p \<Rightarrow>
                (if m \<noteq> [] \<and> map fst m = names (heap s p) \<and> capacity s \<le> len s
                 then 2 * capacity s else capacity s)) \<and>
        (case r of
           Inl ex \<Rightarrow> \<not> (\<exists>row. accepts np s m row)
         | Inr d \<Rightarrow> accepts np s m (snd d) \<and> fst d = map fst (schema s m) \<and>
                      (\<exists>p'. data s' = Some p' \<and> descr (heap s' p') = schema s m))"
  proof (cases "m = []")
    case True
    with ap have "s' = s" "r = Inl ValueError" by (auto simp: append_row_def)
    with inv True show ?thesis
      by (auto simp: accepts_def capacity_def split: option.splits)
  next
    case ne: False
    show ?thesis
    proof (cases "data s")
      case None
      note eq = ap [unfolded append_row_new [OF None ne]]
      from inv None have l0: "len s = 0" by (simp add: table_inv_def)
      have r0: "rows s = []" using None by (simp add: rows_def)
      have sc: "schema s m = column_types m" using None by (simp add: schema_def)
      show ?thesis
      proof (cases "distinct (map fst (column_types m))")
        case False
        with eq have "s' = s" "r = Inl ValueError" by auto
        with inv None False show ?thesis
          by (auto simp: accepts_def capacity_def)
      next
        case True
        have cne: "column_types m \<noteq> []"
          using ne by (cases m) (auto simp: column_types_def)
        show ?thesis
        proof (cases "setitem_row np (np_empty 2 (column_types m)) 0 (map snd m)")
          case (Inl ex)
          with eq True have s': "s' = s\<lparr>data := Some (allocated s), len := 0,
               heap := (heap s)(allocated s := np_empty 2 (column_types m)),
               allocated := allocated s + 1\<rparr>" and r: "r = Inl ex"
            by auto
          from Inl have nc: "\<And>row. convert_row np (map snd (column_types m)) (map snd m) \<noteq> Inr row"
            by (auto simp: setitem_row_def np_empty_sel split: sum.splits)
          from s' r None cne l0 r0 True nc sc ne show ?thesis
            by (simp add: table_inv_def rows_def np_empty_sel capacity_def foreign_def accepts_def)
        next
          case (Inr pr)
          obtain row a2 where pr: "pr = (row, a2)" by (cases pr)
          from setitem_row_Inr [OF Inr [unfolded pr]]
          have a2: "a2 = (np_empty 2 (column_types m))\<lparr>buf := [Some row, None]\<rparr>"
            and cv: "convert_row np (map snd (column_types m)) (map snd m) = Inr row"
            by (simp_all add: np_empty_sel numeral_2_eq_2)
          from eq True Inr pr have s': "s' = s\<lparr>data := Some (allocated s), len := 0 + 1,
               heap := (heap s)(allocated s := a2),
               allocated := allocated s + 1\<rparr>" and r: "r = Inr (names a2, row)"
            by auto
          from s' r None a2 cne l0 r0 True cv sc ne show ?thesis
            by (simp add: table_inv_def rows_def np_empty_sel capacity_def foreign_def
                          accepts_def names_def)
        qed
      qed
    next
      case (Some p)
      note eq = ap [unfolded append_row_existing [OF Some ne]]
      define a where "a = heap s p"
      from inv Some have pa: "p < allocated s" and le: "len s \<le> length (buf a)"
        and pos: "0 < length (buf a)" and dne: "descr a \<noteq> []"
        by (auto simp: table_inv_def a_def)
      from pos have pos1: "Suc 0 \<le> length (buf a)" and bne: "buf a \<noteq> []"
        by (cases "buf a"; simp)+
      have rs: "rows s = take (len s) (buf a)" using Some by (simp add: rows_def a_def)
      have sc: "schema s m = descr a" using Some by (simp add: schema_def a_def)
      have cp: "capacity s = length (buf a)" using Some by (simp add: capacity_def a_def)
      show ?thesis
      proof (cases "map fst m = names a")
        case False
        with eq have "s' = s" "r = Inl SchemaMismatch" by (auto simp: a_def)
        with inv Some False show ?thesis
          by (auto simp: accepts_def capacity_def a_def)
      next
        case nm: True
        show ?thesis
        proof (cases "length (buf a) \<le> len s")
          case full: True
          with le have ll: "len s = length (buf a)" by simp
          have lt: "len s < length (buf (doubled a))"
            using pos ll by (simp add: doubled_def)
          have tk: "take (len s) (buf (doubled a)) = take (len s) (buf a)"
            using ll by (simp add: doubled_def)
          have dd: "descr (doubled a) = descr a" by (simp add: doubled_def)
          have ld: "length (buf (doubled a)) = 2 * length (buf a)" by (simp add: doubled_def)
          show ?thesis
          proof (cases "setitem_row np (doubled a) (len s) (map snd m)")
            case (Inl ex)
            with eq nm full have s': "s' = s\<lparr>data := Some (allocated s),
               heap := (heap s)(allocated s := doubled a),
               allocated := allocated s + 1\<rparr>" and r: "r = Inl ex"
              by (auto simp: a_def)
            from Inl lt have nc: "\<And>row. convert_row np (map snd (descr a)) (map snd m) \<noteq> Inr row"
              by (auto simp: setitem_row_def dd split: sum.splits)
            have "table_inv s'" using s' lt dd dne ld pos1 bne by (simp add: table_inv_def)
            moreover have "rows s' = rows s" using s' tk rs by (simp add: rows_def)
            moreover have "len s' = len s" "allocated s \<le> allocated s'" using s' by simp_all
            moreover have "\<forall>q. foreign s q \<longrightarrow> foreign s' q \<and> heap s' q = heap s q"
              using s' by (auto simp: foreign_def)
            moreover have "\<exists>p'. data s' = Some p' \<and> descr (heap s' p') = descr a"
              using s' dd by simp
            moreover have "capacity s' = 2 * capacity s"
              using s' ld cp by (simp add: capacity_def)
            moreover have "\<not> (\<exists>row. accepts np s m row)"
              using nc sc by (simp add: accepts_def)
            ultimately show ?thesis using r Some nm ne full cp by (simp add: a_def)
          next
            case (Inr pr)
            obtain row a2 where pr: "pr = (row, a2)" by (cases pr)
            from setitem_row_Inr [OF Inr [unfolded pr]]
            have a2: "a2 = (doubled a)\<lparr>buf := (buf (doubled a))[len s := Some row]\<rparr>"
              and cv: "convert_row np (map snd (descr a)) (map snd m) = Inr row"
              by (simp_all add: dd)
            from eq nm full Inr pr have s': "s' = s\<lparr>data := Some (allocated s), len := len s + 1,
               heap := (heap s)(allocated s := a2),
               allocated := allocated s + 1\<rparr>" and r: "r = Inr (names a2, row)"
              by (auto simp: a_def)
            have l2: "length (buf a2) = 2 * length (buf a)" "descr a2 = descr a"
              using a2 ld dd by simp_all
            have t2: "take (len s + 1) (buf a2) = take (len s) (buf a) @ [Some row]"
              using a2 lt tk by (simp add: take_update_last)
            have "table_inv s'" using s' l2 ll dne pos pos1 bne by (simp add: table_inv_def)
            moreover have "rows s' = rows s @ [Some row]" using s' t2 rs by (simp add: rows_def)
            moreover have "len s' = len s + 1" "allocated s \<le> allocated s'" using s' by simp_all
            moreover have "\<forall>q. foreign s q \<longrightarrow> foreign s' q \<and> heap s' q = heap s q"
              using s' by (auto simp: foreign_def)
            moreover have "\<exists>p'. data s' = Some p' \<and> descr (heap s' p') = descr a"
              using s' l2 by simp
            moreover have "capacity s' = 2 * capacity s"
              using s' l2 cp by (simp add: capacity_def)
            moreover have "accepts np s m row"
              using cv sc ne nm Some by (simp add: accepts_def a_def)
            moreover have "names a2 = map fst (schema s m)" using l2 sc by (simp add: names_def)
            ultimately show ?thesis using r Some nm ne full cp sc by (simp add: a_def)
          qed
        next
          case nf: False
          then have lt: "len s < length (buf a)" by simp
          show ?thesis
          proof (cases "setitem_row np a (len s) (map snd m)")
            case (Inl ex)
            with eq nm nf have s': "s' = s" and r: "r = Inl ex"
              by (auto simp: a_def)
            from Inl lt have nc: "\<And>row. convert_row np (map snd (descr a)) (map snd m) \<noteq> Inr row"
              by (auto simp: setitem_row_def split: sum.splits)
            have "\<not> (\<exists>row. accepts np s m row)"
              using nc sc by (simp add: accepts_def)
            with s' r inv Some nm ne nf cp show ?thesis by (simp add: a_def)
          next
            case (Inr pr)
            obtain row a2 where pr: "pr = (row, a2)" by (cases pr)
            from setitem_row_Inr [OF Inr [unfolded pr]]
            have a2: "a2 = a\<lparr>buf := (buf a)[len s := Some row]\<rparr>"
              and cv: "convert_row np (map snd (descr a)) (map snd m) = Inr row"
              by simp_all
            from eq nm nf Inr pr have s': "s' = s\<lparr>len := len s + 1, heap := (heap s)(p := a2)\<rparr>"
              and r: "r = Inr (names a2, row)"
              by (auto simp: a_def)
            have l2: "length (buf a2) = length (buf a)" "descr a2 = descr a"
              using a2 by simp_all
            have t2: "take (len s + 1) (buf a2) = take (len s) (buf a) @ [Some row]"
              using a2 lt by (simp add: take_update_last)
            have "table_inv s'" using s' l2 lt dne pos pos1 pa Some bne by (simp add: table_inv_def)
            moreover have "rows s' = rows s @ [Some row]"
              using s' t2 rs Some by (simp add: rows_def)
            moreover have "len s' = len s + 1" "allocated s \<le> allocated s'" using s' by simp_all
            moreover have "\<forall>q. foreign s q \<longrightarrow> foreign s' q \<and> heap s' q = heap s q"
              using s' Some by (auto simp: foreign_def)
            moreover have "\<exists>p'. data s' = Some p' \<and> descr (heap s' p') = descr a"
              using s' l2 Some by simp
            moreover have "capacity s' = capacity s"
              using s' l2 cp Some by (simp add: capacity_def)
            moreover have "accepts np s m row"
              using cv sc ne nm Some by (simp add: accepts_def a_def)
            moreover have "names a2 = map fst (schema s m)" using l2 sc by (simp add: names_def)
            ultimately show ?thesis using r Some nm ne nf cp sc by (simp add: a_def)
          qed
        qed
      qed
    qed
  qed
  then show "table_inv s'"
    and "rows s' = rows s @ (case r of Inl ex \<Rightarrow> [] | Inr d \<Rightarrow> [Some (snd d)])"
    and "len s' = len s + (case r of Inl ex \<Rightarrow> 0 | Inr d \<Rightarrow> 1)"
    and "allocated s \<le> allocated s'"
    and "\<forall>q. foreign s q \<longrightarrow> foreign s' q \<and> heap s' q = heap s q"
    and "\<forall>p. data s = Some p \<longrightarrow> (\<exists>p'. data s' = Some p' \<and> descr (heap s' p') = descr (heap s p))"
    and "capacity s' =
           (case data s of
              None \<Rightarrow> (if m \<noteq> [] \<and> distinct (map fst (column_types m)) then 2 else 0)
            | Some p \<Rightarrow>
                (if m \<noteq> [] \<and> map fst m = names (heap s p) \<and> capacity s \<le> len s
                 then 2 * capacity s else capacity s))"
    and "case r of
           Inl ex \<Rightarrow> \<not> (\<exists>row. accepts np s m row)
         | Inr d \<Rightarrow> accepts np s m (snd d) \<and> fst d = map fst (schema s m) \<and>
                      (\<exists>p'. data s' = Some p' \<and> descr (heap s' p') = schema s m)"
    by blast+
qed

subsection \<open>The sinks\<close>

lemma rewritten_store: "store s' = store s \<Longrightarrow> rewritten s s'"
  by (simp add: rewritten_def store_def)

lemma rewritten_trans: "rewritten s s1 \<Longrightarrow> rewritten s1 s2 \<Longrightarrow> rewritten s s2"
  by (auto simp: rewritten_def)

lemma rewritten_update [simp]:
  "rewritten s (s'\<lparr>timer_active := b\<rparr>) = rewritten s s'"
  "rewritten s (s'\<lparr>first := b\<rparr>) = rewritten s s'"
  by (simp_all add: rewritten_def)

lemma rewrittenD:
  assumes "rewritten s s'"
  shows "data s' = data s" "len s' = len s" "allocated s' = allocated s"
    "table_inv s' = table_inv s" "capacity s' = capacity s" "schema s' = schema s"
    "foreign s' = foreign s" "\<And>q. foreign s q \<Longrightarrow> heap s' q = heap s q"
    "length (rows s') = length (rows s)"
    "\<And>p. data s = Some p \<Longrightarrow> descr (heap s' p) = descr (heap s p)"
proof -
  from assms show d: "data s' = data s" and l: "len s' = len s" and a: "allocated s' = allocated s"
    by (simp_all add: rewritten_def)
  from assms d l a show "table_inv s' = table_inv s"
    by (auto simp: table_inv_def rewritten_def split: option.splits)
  from assms d show "capacity s' = capacity s"
    by (auto simp: capacity_def rewritten_def split: option.splits)
  from assms d show "schema s' = schema s"
    by (intro ext) (auto simp: schema_def rewritten_def split: option.splits)
  from d a show "foreign s' = foreign s" by (intro ext) (simp add: foreign_def)
  from assms show "\<And>q. foreign s q \<Longrightarrow> heap s' q = heap s q"
    by (simp add: rewritten_def foreign_def)
  from assms d l show "length (rows s') = length (rows s)"
    by (auto simp: rows_def rewritten_def split: option.splits)
  from assms show "\<And>p. data s = Some p \<Longrightarrow> descr (heap s' p) = descr (heap s p)"
    by (simp add: rewritten_def)
qed

lemma typed_inv_store: "store s' = store s \<Longrightarrow> typed_inv s' = typed_inv s"
  using store_eqD [of s' s] by (simp add: typed_inv_def split: option.splits)

text \<open>
  The sinks leave the size of the table, its fields and the other arrays as they are;
  the rows stay typed; and plot functions that do not write leave the rows as they are.
\<close>

lemma report_frame:
  assumes "report np e d s = (r, s')"
  shows "fixed s' = fixed s \<and> sweep s' = sweep s \<and> timer_active s' = timer_active s \<and>
         (r = None \<longrightarrow> \<not> first s') \<and> rewritten s s' \<and>
         (typed_inv s \<longrightarrow> typed_inv s') \<and> (read_only e \<longrightarrow> store s' = store s)"
proof -
  obtain r1 s1 where l1: "(if first s then log_start d s else (None, s)) = (r1, s1)"
    by (cases "if first s then log_start d s else (None, s)")
  have f1: "fixed s1 = fixed s \<and> store s1 = store s \<and> sweep s1 = sweep s \<and>
            timer_active s1 = timer_active s"
    using l1 call_loggers_frame [of "logger_start d" "\<lambda>i. LogStart i d" s r1 s1]
    by (cases "first s") (auto simp: log_start_def)
  then have st1: "store s1 = store s" by simp
  note ty = typed_inv_store [where s = s]
  show ?thesis
  proof (cases r1)
    case (Some ex)
    with assms l1 have "s' = s1" "r = Some ex" by (auto simp: report_def)
    with f1 rewritten_store [OF st1] ty [OF st1] show ?thesis by simp
  next
    case None
    obtain r2 s2 where l2: "log np d s1 = (r2, s2)" by (cases "log np d s1")
    have f2: "fixed s2 = fixed s1 \<and> store s2 = store s1 \<and> sweep s2 = sweep s1 \<and>
              timer_active s2 = timer_active s1"
      using l2 call_loggers_frame [of "logger_log np d" "\<lambda>i. Log i d" s1 r2 s2]
      by (auto simp: log_def)
    with st1 have st2: "store s2 = store s" by simp
    show ?thesis
    proof (cases r2)
      case (Some ex)
      with assms l1 None l2 have "s' = s2" "r = Some ex" by (auto simp: report_def)
      with f1 f2 rewritten_store [OF st2] ty [OF st2] show ?thesis by simp
    next
      case r2: None
      show ?thesis
      proof (cases "data s2")
        case dn: None
        with assms l1 None l2 r2 have "s' = s2" "r = Some TypeError" by (auto simp: report_def)
        with f1 f2 rewritten_store [OF st2] ty [OF st2] show ?thesis by simp
      next
        case (Some p)
        obtain r3 s3 where l3: "plot e p (len s2) s2 = (r3, s3)" by (cases "plot e p (len s2) s2")
        note f3 = plot_frame [OF l3]
        from assms l1 None l2 r2 Some l3
        have rs: "(r = None \<and> s' = s3\<lparr>first := False\<rparr>) \<or> (r \<noteq> None \<and> s' = s3)"
          by (auto simp: report_def split: option.splits)
        have rw3: "rewritten s2 s3" using f3 Some by (simp add: rewritten_def)
        have ty3: "typed_inv s2 \<longrightarrow> typed_inv s3"
          using f3 Some by (simp add: typed_inv_def rows_def)
        have ro3: "read_only e \<longrightarrow> store s3 = store s2" using f3 by (simp add: store_def)
        have a: "fixed s' = fixed s3" "sweep s' = sweep s3" "timer_active s' = timer_active s3"
          "r = None \<longrightarrow> \<not> first s'" "rewritten s s' = rewritten s s3"
          "store s' = store s3"
          using rs by (auto simp: fixed_def sweep_def store_def)
        note a = a typed_inv_store [OF a(6)]
        have "rewritten s s3" using rewritten_trans [OF rewritten_store [OF st2] rw3] .
        with a f1 f2 f3 ty3 ro3 ty [OF st2] st2 show ?thesis by simp
      qed
    qed
  qed
qed

text \<open>A tick in terms of its three parts.\<close>

lemma on_timer_Record:
  assumes "acquire e s = (Record m, s1)"
  shows "on_timer np e s =
     (case append_row np m s1 of
        (Inl ex, s2) \<Rightarrow> (Some ex, s2\<lparr>timer_active := False\<rparr>)
      | (Inr d, s2) \<Rightarrow>
          (case report np e d s2 of
             (None, s3) \<Rightarrow> (None, s3)
           | (Some ex, s3) \<Rightarrow> (Some ex, s3\<lparr>timer_active := False\<rparr>)))"
  using assms by (simp add: on_timer_def on_timer_try_def split: prod.split sum.split option.split)

lemma on_timer_Raised:
  "acquire e s = (Raised ex, s1) \<Longrightarrow> on_timer np e s = (Some ex, s1\<lparr>timer_active := False\<rparr>)"
  by (simp add: on_timer_def on_timer_try_def)

lemma on_timer_Returned:
  "acquire e s = (Returned, s1) \<Longrightarrow> on_timer np e s = (None, s1)"
  by (simp add: on_timer_def on_timer_try_def)

subsection \<open>One tick and the table\<close>

lemma convert_typed: "convert np t v = Inr c \<Longrightarrow> cell_dtype c = t"
  by (cases t; cases v) (auto split: option.splits)

lemma convert_row_typed: "convert_row np ts vs = Inr r \<Longrightarrow> map cell_dtype r = ts"
proof (induction ts arbitrary: vs r)
  case Nil
  then show ?case by (cases vs) simp_all
next
  case (Cons t ts)
  show ?case
  proof (cases vs)
    case Nil
    with Cons.prems show ?thesis by simp
  next
    case (Cons v vs')
    with Cons.prems obtain c cs where c: "convert np t v = Inr c"
      and cs: "convert_row np ts vs' = Inr cs" and r: "r = c # cs"
      by (auto split: sum.splits)
    from convert_typed [OF c] Cons.IH [OF cs] r show ?thesis by simp
  qed
qed

lemma accepts_unique: "accepts np s m r \<Longrightarrow> accepts np s m r' \<Longrightarrow> r' = r"
  by (simp add: accepts_def)

lemma collected_Record:
  assumes "acquire e s = (Record m, s1)"
  shows "accepts np s m row \<Longrightarrow> collected np e s = [Some row]"
    and "\<not> (\<exists>row. accepts np s m row) \<Longrightarrow> collected np e s = []"
  using assms
  by (auto simp: collected_def accepts_def split: option.splits sum.splits)

lemma collected_other:
  "acquire e s = (q, s1) \<Longrightarrow> \<forall>m. q \<noteq> Record m \<Longrightarrow> collected np e s = []"
  by (cases q) (auto simp: collected_def)

lemma append_row_typed:
  assumes inv: "table_inv s" and ty: "typed_inv s" and ap: "append_row np m s = (r, s')"
  shows "typed_inv s'"
proof -
  note t = append_row_table [OF inv ap]
  show ?thesis
  proof (cases r)
    case (Inl ex)
    with t(2) have rw: "rows s' = rows s" by simp
    show ?thesis
    proof (cases "data s")
      case None
      then have "rows s = []" by (simp add: rows_def)
      with rw show ?thesis by (simp add: typed_inv_def split: option.splits)
    next
      case (Some p)
      with t(6) obtain p' where "data s' = Some p'" "descr (heap s' p') = descr (heap s p)"
        by blast
      with ty Some rw show ?thesis by (simp add: typed_inv_def)
    qed
  next
    case (Inr d)
    with t(2) have rw: "rows s' = rows s @ [Some (snd d)]" by simp
    from t(8) Inr obtain p' where acc: "accepts np s m (snd d)"
      and p': "data s' = Some p'" "descr (heap s' p') = schema s m"
      by auto
    from acc have "convert_row np (map snd (schema s m)) (map snd m) = Inr (snd d)"
      by (simp add: accepts_def)
    from convert_row_typed [OF this] have new: "row_typed (schema s m) (Some (snd d))"
      by (simp add: row_typed_def)
    have old: "list_all (row_typed (schema s m)) (rows s)"
    proof (cases "data s")
      case None
      then show ?thesis by (simp add: rows_def)
    next
      case (Some p)
      with ty show ?thesis by (simp add: typed_inv_def schema_def)
    qed
    from old new rw p' show ?thesis by (simp add: typed_inv_def)
  qed
qed

text \<open>
  What a tick does to the table: it adds the sample it collects, and nothing else when
  its plot functions do not write.
\<close>

lemma on_timer_table:
  assumes inv: "table_inv s" and tick: "on_timer np e s = (r, s')"
  shows "table_inv s'"
    and "fixed s' = fixed s"
    and "allocated s \<le> allocated s'"
    and "\<forall>q. foreign s q \<longrightarrow> foreign s' q \<and> heap s' q = heap s q"
    and "\<forall>p. data s = Some p \<longrightarrow> (\<exists>p'. data s' = Some p' \<and> descr (heap s' p') = descr (heap s p))"
    and "typed_inv s \<longrightarrow> typed_inv s'"
    and "len s' = len s + length (collected np e s)"
    and "read_only e \<or> collected np e s = [] \<longrightarrow> rows s' = rows s @ collected np e s"
proof -
  obtain q s1 where ac: "acquire e s = (q, s1)" by (cases "acquire e s")
  note f1 = acquire_frame [OF ac]
  then have st1: "store s1 = store s" and x1: "fixed s1 = fixed s" by simp_all
  note e1 = store_eqD [OF st1]
  have same: "table_inv s' \<and> fixed s' = fixed s \<and> allocated s \<le> allocated s' \<and>
        (\<forall>q. foreign s q \<longrightarrow> foreign s' q \<and> heap s' q = heap s q) \<and>
        (\<forall>p. data s = Some p \<longrightarrow> (\<exists>p'. data s' = Some p' \<and> descr (heap s' p') = descr (heap s p))) \<and>
        (typed_inv s \<longrightarrow> typed_inv s') \<and>
        len s' = len s + length (collected np e s) \<and>
        (read_only e \<or> collected np e s = [] \<longrightarrow> rows s' = rows s @ collected np e s)"
    if st: "store s' = store s" and fx: "fixed s' = fixed s" and c: "collected np e s = []"
    for s'
    using store_eqD [OF st] typed_inv_store [OF st] fx c inv by simp
  have "table_inv s' \<and> fixed s' = fixed s \<and> allocated s \<le> allocated s' \<and>
        (\<forall>q. foreign s q \<longrightarrow> foreign s' q \<and> heap s' q = heap s q) \<and>
        (\<forall>p. data s = Some p \<longrightarrow> (\<exists>p'. data s' = Some p' \<and> descr (heap s' p') = descr (heap s p))) \<and>
        (typed_inv s \<longrightarrow> typed_inv s') \<and>
        len s' = len s + length (collected np e s) \<and>
        (read_only e \<or> collected np e s = [] \<longrightarrow> rows s' = rows s @ collected np e s)"
  proof (cases q)
    case Returned
    with ac tick on_timer_Returned [of e s s1 np] have "s' = s1" by simp
    moreover have "collected np e s = []" using collected_other [OF ac] Returned by simp
    ultimately show ?thesis using same [of s1] st1 x1 by simp
  next
    case (Raised ex)
    with ac tick on_timer_Raised [of e s ex s1 np] have s': "s' = s1\<lparr>timer_active := False\<rparr>" by simp
    have "collected np e s = []" using collected_other [OF ac] Raised by simp
    then show ?thesis using same [of s'] st1 x1 s' by simp
  next
    case (Record m)
    with ac have acm: "acquire e s = (Record m, s1)" by simp
    obtain r2 s2 where ap: "append_row np m s1 = (r2, s2)" by (cases "append_row np m s1")
    from inv e1(6) have inv1: "table_inv s1" by simp
    note t = append_row_table [OF inv1 ap]
    have acc_eq: "accepts np s1 m = accepts np s m"
      using e1 by (intro ext) (simp add: accepts_def split: option.splits)
    have x2: "fixed s2 = fixed s" using append_row_frame [OF ap] x1 by simp
    have fo: "\<forall>q. foreign s q \<longrightarrow> foreign s2 q \<and> heap s2 q = heap s q"
      using t(5) e1 by simp
    have sc: "\<forall>p. data s = Some p \<longrightarrow> (\<exists>p'. data s2 = Some p' \<and> descr (heap s2 p') = descr (heap s p))"
      using t(6) e1 by simp
    have ty2: "typed_inv s \<longrightarrow> typed_inv s2"
      using append_row_typed [OF inv1 _ ap] typed_inv_store [OF st1] by simp
    have al: "allocated s \<le> allocated s2" using t(4) e1 by simp
    show ?thesis
    proof (cases r2)
      case (Inl ex)
      with acm ap tick on_timer_Record [of e s m s1 np]
      have s': "s' = s2\<lparr>timer_active := False\<rparr>" by simp
      then have st': "store s' = store s2" and x': "fixed s' = fixed s2" by simp_all
      from t(8) Inl acc_eq have "\<not> (\<exists>row. accepts np s m row)" by simp
      from collected_Record(2) [OF acm this] have c: "collected np e s = []" .
      from t(2,3) Inl e1 have "rows s2 = rows s" "len s2 = len s" by simp_all
      with store_eqD [OF st'] typed_inv_store [OF st'] x' x2 c t(1) fo sc ty2 al
      show ?thesis by simp
    next
      case (Inr d)
      obtain r3 s3 where rp: "report np e d s2 = (r3, s3)" by (cases "report np e d s2")
      note f3 = report_frame [OF rp]
      then have rw: "rewritten s2 s3" by simp
      note d3 = rewrittenD [OF rw]
      from Inr acm ap rp tick on_timer_Record [of e s m s1 np]
      have "s' = s3 \<or> s' = s3\<lparr>timer_active := False\<rparr>" by (cases r3) simp_all
      then have st': "store s' = store s3" and x': "fixed s' = fixed s3" by auto
      from t(8) Inr acc_eq have acc: "accepts np s m (snd d)" by simp
      from collected_Record(1) [OF acm acc] have c: "collected np e s = [Some (snd d)]" .
      from t(2,3) Inr e1 have r2: "rows s2 = rows s @ [Some (snd d)]" "len s2 = len s + 1"
        by simp_all
      have "table_inv s3" using d3(4) t(1) by simp
      moreover have "fixed s3 = fixed s" using f3 x2 by simp
      moreover have "allocated s \<le> allocated s3" using al d3(3) by simp
      moreover have "\<forall>q. foreign s q \<longrightarrow> foreign s3 q \<and> heap s3 q = heap s q"
        using fo d3(7,8) by simp
      moreover have "\<forall>p. data s = Some p \<longrightarrow> (\<exists>p'. data s3 = Some p' \<and> descr (heap s3 p') = descr (heap s p))"
        using sc d3(1,10) by auto
      moreover have "typed_inv s \<longrightarrow> typed_inv s3" using ty2 f3 by simp
      moreover have "len s3 = len s + length (collected np e s)" using d3(2) r2 c by simp
      moreover have "read_only e \<longrightarrow> rows s3 = rows s @ collected np e s"
      proof
        assume "read_only e"
        with f3 have "store s3 = store s2" by simp
        from store_eqD(5) [OF this] r2 c show "rows s3 = rows s @ collected np e s" by simp
      qed
      ultimately show ?thesis
        using store_eqD [OF st'] typed_inv_store [OF st'] x' c by simp
    qed
  qed
  then show "table_inv s'"
    and "fixed s' = fixed s"
    and "allocated s \<le> allocated s'"
    and "\<forall>q. foreign s q \<longrightarrow> foreign s' q \<and> heap s' q = heap s q"
    and "\<forall>p. data s = Some p \<longrightarrow> (\<exists>p'. data s' = Some p' \<and> descr (heap s' p') = descr (heap s p))"
    and "typed_inv s \<longrightarrow> typed_inv s'"
    and "len s' = len s + length (collected np e s)"
    and "read_only e \<or> collected np e s = [] \<longrightarrow> rows s' = rows s @ collected np e s"
    by blast+
qed

subsection \<open>\<^verbatim>\<open>get_data\<close>, \<^verbatim>\<open>start\<close>, \<^verbatim>\<open>stop\<close>\<close>


lemma get_data_Some:
  "data s = Some p \<Longrightarrow>
   get_data s =
     (Inr (allocated s),
      s\<lparr>heap := (heap s)(allocated s := getslice (heap s p) (len s)),
        allocated := allocated s + 1\<rparr>)"
  by (simp add: get_data_def alloc_def)



subsection \<open>Sequences of ticks and calls\<close>



subsection \<open>Ticks that return\<close>






subsection \<open>Starting the loggers\<close>




subsection \<open>Field names and types\<close>


lemma field_names_fst: "[] \<notin> set (map fst fs) \<Longrightarrow> map fst (field_names i fs) = map fst fs"
  by (induction fs arbitrary: i) auto



lemma column_types_fst: "[] \<notin> set (map fst m) \<Longrightarrow> map fst (column_types m) = map fst m"
proof -
  assume a: "[] \<notin> set (map fst m)"
  have "map fst (map (\<lambda>(name, d). (name, promote_datatype (type_py d))) m) = map fst m"
    by (induction m) auto
  with a field_names_fst [of "map (\<lambda>(name, d). (name, promote_datatype (type_py d))) m" 0]
  show ?thesis by (simp add: column_types_def)
qed






section \<open>The claims\<close>

lemmas tick_defs = on_timer_def on_timer_try_def acquire_def next_condition_def
  bind_variables_def measure_hook_def apply_condition_def append_row_def np_dtype_def np_empty_def
  setitem_row_def names_def report_def log_start_def log_def call_loggers_def get_data_def
  plot_def stop_def log_finish_def start_def Experiment_def Let_def zip_star_def
  alloc_def getslice_def setslice_def

lemma length_zip_star:
  "xss \<noteq> [] \<Longrightarrow> length (zip_star xss) = Min (set (map length xss))"
  by (simp add: zip_star_def min_list_Min)

lemma nth_zip_star:
  "i < length (zip_star xss) \<Longrightarrow> zip_star xss ! i = map (\<lambda>xs. xs ! i) xss"
  by (auto simp: zip_star_def split: if_splits)


subsection \<open>C4: value sequences of unequal lengths\<close>

text \<open>
  Claim C4, as stated, fails: no error is raised for value sequences of unequal lengths.
  \<^verbatim>\<open>__init__\<close> stores the conditions, \<^verbatim>\<open>start()\<close> builds the rows with \<^verbatim>\<open>zip(*values)\<close>,
  which stops at the shortest sequence, and the first tick runs normally.
\<close>

theorem C4_counterexample:
  "variable_values_iter (start 0 0 (Experiment [] unequal_conditions None Map.empty))
     = [[PyInt 1, PyInt 10]] \<and>
   timer_active (start 0 0 (Experiment [] unequal_conditions None Map.empty)) \<and>
   fst (on_timer numpy_exact (measure_current 1)
          (start 0 0 (Experiment [] unequal_conditions None Map.empty))) = None"
  by (simp add: tick_defs unequal_conditions_def numpy_exact_def measure_current_def one_enat_def)

text \<open>
  Claim C4, amended: for every non-empty condition set, whatever the lengths of its
  value sequences, \<^verbatim>\<open>start()\<close> arms the timer, and the sweep has as many rows as the
  shortest value sequence has values; row \<open>i\<close> holds the \<open>i\<close>-th value of every variable.
\<close>

theorem C4_sweep_truncates:
  assumes "conds \<noteq> []"
  shows "timer_active (start now iv (Experiment lg conds mpc fs)) \<and>
         variables (start now iv (Experiment lg conds mpc fs)) = map fst conds \<and>
         length (variable_values_iter (start now iv (Experiment lg conds mpc fs)))
           = Min (set (map (\<lambda>c. length (snd c)) conds)) \<and>
         (\<forall>i < length (variable_values_iter (start now iv (Experiment lg conds mpc fs))).
            variable_values_iter (start now iv (Experiment lg conds mpc fs)) ! i
              = map (\<lambda>c. snd c ! i) conds)"
proof -
  have it: "variable_values_iter (start now iv (Experiment lg conds mpc fs)) = zip_star (map snd conds)"
    using assms by (simp add: start_def Experiment_def)
  have len: "length (zip_star (map snd conds)) = Min (set (map (\<lambda>c. length (snd c)) conds))"
    using assms length_zip_star [of "map snd conds"] by (simp add: comp_def)
  have nth: "\<forall>i < length (zip_star (map snd conds)).
               zip_star (map snd conds) ! i = map (\<lambda>c. snd c ! i) conds"
    using nth_zip_star [of _ "map snd conds"] by (simp add: comp_def)
  have "timer_active (start now iv (Experiment lg conds mpc fs))"
    by (simp add: start_def Let_def)
  moreover have "variables (start now iv (Experiment lg conds mpc fs)) = map fst conds"
    using assms by (simp add: start_def Experiment_def)
  ultimately show ?thesis using it len nth by simp
qed

theorem C4_sweep_truncates_witness:
  "unequal_conditions \<noteq> [] \<and>
   length (variable_values_iter (start 0 0 (Experiment [] unequal_conditions None Map.empty))) = 1"
  using C4_sweep_truncates [of unequal_conditions 0 0 "[]" None Map.empty]
  by (simp add: unequal_conditions_def)

subsection \<open>C3: \<^verbatim>\<open>get_data\<close>\<close>




subsection \<open>C7: growth of the array\<close>

lemma storable_accepts:
  assumes "storable np (schema s m) m r"
  shows "accepts np s m r"
proof (cases "data s")
  case None
  with assms show ?thesis by (simp add: storable_def accepts_def schema_def)
next
  case (Some p)
  with assms show ?thesis by (simp add: storable_def accepts_def schema_def names_def)
qed

text \<open>A record that the storing step accepts is stored.\<close>

lemma append_row_accepts:
  assumes inv: "table_inv s" and acc: "accepts np s m r"
  shows "fst (append_row np m s) = Inr (map fst (schema s m), r)"
proof -
  obtain res s' where ap: "append_row np m s = (res, s')" by (cases "append_row np m s")
  note t = append_row_table [OF inv ap]
  show ?thesis
  proof (cases res)
    case (Inl ex)
    with t(8) acc show ?thesis by auto
  next
    case (Inr d)
    with t(8) have "accepts np s m (snd d)" "fst d = map fst (schema s m)" by simp_all
    with accepts_unique [OF acc] ap Inr show ?thesis by (cases d) simp
  qed
qed

lemma append_rows_storable:
  assumes "table_inv s" "data s = Some p" "descr (heap s p) = dt"
    and "list_all2 (storable np dt) ms rs"
  shows "table_inv (append_rows np ms s) \<and>
         rows (append_rows np ms s) = rows s @ map Some rs \<and>
         len (append_rows np ms s) = len s + length ms \<and>
         (\<forall>q. foreign s q \<longrightarrow> heap (append_rows np ms s) q = heap s q) \<and>
         (\<exists>p'. data (append_rows np ms s) = Some p' \<and> descr (heap (append_rows np ms s) p') = dt) \<and>
         (\<exists>k. capacity (append_rows np ms s) = capacity s * 2 ^ k \<and>
              (k = 0 \<or> capacity (append_rows np ms s) < 2 * (len s + length ms)))"
  using assms
proof (induction ms arbitrary: s p rs)
  case Nil
  have "capacity s = capacity s * 2 ^ 0" by simp
  with Nil show ?case by (auto simp del: power_0)
next
  case (Cons m ms)
  from Cons.prems(4) obtain r rs' where rs: "rs = r # rs'" and st: "storable np dt m r"
    and rest: "list_all2 (storable np dt) ms rs'"
    by (auto simp: list_all2_Cons1)
  obtain res s1 where ap: "append_row np m s = (res, s1)" by (cases "append_row np m s")
  note t = append_row_table [OF Cons.prems(1) ap]
  have sc: "schema s m = dt" using Cons.prems(2,3) by (simp add: schema_def)
  from st sc have acc: "accepts np s m r" using storable_accepts [of np s m r] by simp
  from append_row_accepts [OF Cons.prems(1) acc] ap sc
  have res: "res = Inr (map fst dt, r)" by simp
  from t(2,3) res have r1: "rows s1 = rows s @ [Some r]" "len s1 = len s + 1" by simp_all
  from t(6) Cons.prems(2,3) obtain p1 where p1: "data s1 = Some p1" "descr (heap s1 p1) = dt"
    by auto
  from Cons.prems(1,2) have le: "len s \<le> capacity s" and pos: "0 < capacity s"
    by (simp_all add: table_inv_def capacity_def)
  from acc Cons.prems(2) have "m \<noteq> []" "map fst m = names (heap s p)"
    by (simp_all add: accepts_def)
  with t(7) Cons.prems(2)
  have c1: "capacity s1 = (if capacity s \<le> len s then 2 * capacity s else capacity s)"
    by simp
  from Cons.IH [OF t(1) p1 rest] obtain k where
    ih: "table_inv (append_rows np ms s1)"
      "rows (append_rows np ms s1) = rows s1 @ map Some rs'"
      "len (append_rows np ms s1) = len s1 + length ms"
      "\<forall>q. foreign s1 q \<longrightarrow> heap (append_rows np ms s1) q = heap s1 q"
      "\<exists>p'. data (append_rows np ms s1) = Some p' \<and> descr (heap (append_rows np ms s1) p') = dt"
      "capacity (append_rows np ms s1) = capacity s1 * 2 ^ k"
      "k = 0 \<or> capacity (append_rows np ms s1) < 2 * (len s1 + length ms)"
    by blast
  have fo: "\<forall>q. foreign s q \<longrightarrow> heap (append_rows np ms s1) q = heap s q"
    using ih(4) t(5) by simp
  have dbl: "\<exists>k'. capacity (append_rows np ms s1) = capacity s * 2 ^ k' \<and>
                (k' = 0 \<or> capacity (append_rows np ms s1) < 2 * (len s + length (m # ms)))"
  proof (cases "capacity s \<le> len s")
    case True
    with le have c: "capacity s = len s" by simp
    from True c1 ih(6) have "capacity (append_rows np ms s1) = capacity s * 2 ^ Suc k" by simp
    moreover have "capacity (append_rows np ms s1) < 2 * (len s + length (m # ms))"
    proof (cases "k = 0")
      case True
      with ih(6) c1 c have "capacity (append_rows np ms s1) = 2 * len s" by simp
      then show ?thesis by simp
    next
      case False
      with ih(7) r1(2) show ?thesis by simp
    qed
    ultimately show ?thesis by blast
  next
    case False
    with c1 ih(6) have "capacity (append_rows np ms s1) = capacity s * 2 ^ k" by simp
    with ih(7) r1(2) show ?thesis by auto
  qed
  have eq: "snd (append_row np m s) = s1" using ap by simp
  have "table_inv (append_rows np ms s1) \<and>
         rows (append_rows np ms s1) = rows s @ map Some rs \<and>
         len (append_rows np ms s1) = len s + length (m # ms) \<and>
         (\<forall>q. foreign s q \<longrightarrow> heap (append_rows np ms s1) q = heap s q) \<and>
         (\<exists>p'. data (append_rows np ms s1) = Some p' \<and> descr (heap (append_rows np ms s1) p') = dt) \<and>
         (\<exists>k. capacity (append_rows np ms s1) = capacity s * 2 ^ k \<and>
              (k = 0 \<or> capacity (append_rows np ms s1) < 2 * (len s + length (m # ms))))"
    using ih(1,2,3,5) r1 rs fo dbl by simp
  then show ?case unfolding append_rows.simps eq .
qed

text \<open>
  Claim C7, as stated, fails. With no row appended (\<open>N = 0\<close>) there is no table: the
  array of capacity 2 is created by the first append, and \<^verbatim>\<open>get_data()\<close> raises TypeError
  instead of returning a result of length 0. A record with the columns of the first one
  is not stored when one of its values does not convert to the type that the first record
  gave its column (here a string in a column of floats: ValueError, the length stays 1).
  And when a column has the empty string as its name, numpy names the field \<^verbatim>\<open>f1\<close>, and a
  second record with the same columns is refused as having other columns.
\<close>

theorem C7_counterexample:
  "fst (get_data (append_rows numpy_exact [] (Experiment [] [] None Map.empty))) = Inl TypeError \<and>
   fst (append_row numpy_exact [(''time'', PyFloat 2), (''x'', PyStr ''abc'')]
          (append_rows numpy_exact [[(''time'', PyFloat 1), (''x'', PyInt 1)]]
             (Experiment [] [] None Map.empty))) = Inl ValueError \<and>
   len (append_rows numpy_exact
          [[(''time'', PyFloat 1), (''x'', PyInt 1)], [(''time'', PyFloat 2), (''x'', PyStr ''abc'')]]
          (Experiment [] [] None Map.empty)) = 1 \<and>
   fst (append_row numpy_exact [(''time'', PyFloat 2), ('''', PyInt 1)]
          (append_rows numpy_exact [[(''time'', PyFloat 1), ('''', PyInt 1)]]
             (Experiment [] [] None Map.empty))) = Inl SchemaMismatch \<and>
   len (append_rows numpy_exact
          [[(''time'', PyFloat 1), ('''', PyInt 1)], [(''time'', PyFloat 2), ('''', PyInt 1)]]
          (Experiment [] [] None Map.empty)) = 1"
  by (simp add: tick_defs numpy_exact_def string_of_nat.simps numeral_2_eq_2)

text \<open>
  Claim C7, amended. In every state that satisfies the invariant of the table, with or
  without an array: the storing step, whatever the record, keeps the invariant (the
  length is at most the capacity) and the rows, in their order, and adds the stored row
  after them; it stores every record that it accepts; the first one creates the array
  with capacity 2, and afterwards the capacity doubles when a record with the columns of
  the array meets a full array, and stays as it is otherwise. Hence for \<open>N \<ge> 1\<close> records
  that are storable with the fields that the first of them meets (those of the array or,
  without an array, those made from this record: the names are distinct and not empty,
  every record has them in this order, and every value converts to the type of its
  column), the table has \<open>N\<close> more rows, \<^verbatim>\<open>get_data()\<close> returns a new array with the rows
  that were there followed by the \<open>N\<close> new rows in the order of insertion, and the
  capacity is the first capacity (2 for a new array) times a power of two, less than
  twice the number of rows when it has grown. From the construction of the object this
  is a result of length exactly \<open>N\<close>.
\<close>

theorem C7_growth:
  assumes "table_inv s"
  shows "table_inv (snd (append_row np m s)) \<and>
         len (snd (append_row np m s)) \<le> capacity (snd (append_row np m s)) \<and>
         rows (snd (append_row np m s)) =
           rows s @ (case fst (append_row np m s) of Inl ex \<Rightarrow> [] | Inr d \<Rightarrow> [Some (snd d)]) \<and>
         (\<forall>r. accepts np s m r \<longrightarrow> fst (append_row np m s) = Inr (map fst (schema s m), r)) \<and>
         capacity (snd (append_row np m s)) =
           (case data s of
              None \<Rightarrow> (if m \<noteq> [] \<and> distinct (map fst (column_types m)) then 2 else 0)
            | Some p \<Rightarrow>
                (if m \<noteq> [] \<and> map fst m = names (heap s p) \<and> capacity s \<le> len s
                 then 2 * capacity s else capacity s)) \<and>
         (\<forall>rs. list_all2 (storable np (schema s m)) (m # ms) rs \<longrightarrow>
            table_inv (append_rows np (m # ms) s) \<and>
            rows (append_rows np (m # ms) s) = rows s @ map Some rs \<and>
            len (append_rows np (m # ms) s) = len s + length (m # ms) \<and>
            fst (get_data (append_rows np (m # ms) s)) = Inr (allocated (append_rows np (m # ms) s)) \<and>
            heap (snd (get_data (append_rows np (m # ms) s))) (allocated (append_rows np (m # ms) s))
              = \<lparr>descr = schema s m, buf = rows s @ map Some rs\<rparr> \<and>
            (\<exists>k. capacity (append_rows np (m # ms) s)
                    = (case data s of None \<Rightarrow> 2 | Some p \<Rightarrow> capacity s) * 2 ^ k \<and>
                 (k = 0 \<or> capacity (append_rows np (m # ms) s) < 2 * (len s + length (m # ms)))))"
proof -
  obtain res s1 where ap: "append_row np m s = (res, s1)" by (cases "append_row np m s")
  note t = append_row_table [OF assms ap]
  have lc: "len s' \<le> capacity s'" if "table_inv s'" for s'
    using that by (auto simp: table_inv_def capacity_def split: option.splits)
  have one: "table_inv (snd (append_row np m s)) \<and>
         len (snd (append_row np m s)) \<le> capacity (snd (append_row np m s)) \<and>
         rows (snd (append_row np m s)) =
           rows s @ (case fst (append_row np m s) of Inl ex \<Rightarrow> [] | Inr d \<Rightarrow> [Some (snd d)]) \<and>
         capacity (snd (append_row np m s)) =
           (case data s of
              None \<Rightarrow> (if m \<noteq> [] \<and> distinct (map fst (column_types m)) then 2 else 0)
            | Some p \<Rightarrow>
                (if m \<noteq> [] \<and> map fst m = names (heap s p) \<and> capacity s \<le> len s
                 then 2 * capacity s else capacity s))"
    using t(1,2,7) lc [OF t(1)] ap by simp
  have acc: "\<forall>r. accepts np s m r \<longrightarrow> fst (append_row np m s) = Inr (map fst (schema s m), r)"
    using append_row_accepts [OF assms] by blast
  have many: "table_inv (append_rows np (m # ms) s) \<and>
            rows (append_rows np (m # ms) s) = rows s @ map Some rs \<and>
            len (append_rows np (m # ms) s) = len s + length (m # ms) \<and>
            fst (get_data (append_rows np (m # ms) s)) = Inr (allocated (append_rows np (m # ms) s)) \<and>
            heap (snd (get_data (append_rows np (m # ms) s))) (allocated (append_rows np (m # ms) s))
              = \<lparr>descr = schema s m, buf = rows s @ map Some rs\<rparr> \<and>
            (\<exists>k. capacity (append_rows np (m # ms) s)
                    = (case data s of None \<Rightarrow> 2 | Some p \<Rightarrow> capacity s) * 2 ^ k \<and>
                 (k = 0 \<or> capacity (append_rows np (m # ms) s) < 2 * (len s + length (m # ms))))"
    if all: "list_all2 (storable np (schema s m)) (m # ms) rs" for rs
  proof -
    define dt where "dt = schema s m"
    from all obtain r rs' where rs: "rs = r # rs'" and st: "storable np dt m r"
      and rest: "list_all2 (storable np dt) ms rs'"
      by (auto simp: list_all2_Cons1 dt_def)
    from st have a: "accepts np s m r" using storable_accepts [of np s m r] by (simp add: dt_def)
    from append_row_accepts [OF assms a] ap have res: "res = Inr (map fst dt, r)"
      by (simp add: dt_def)
    from t(2,3) res have r1: "rows s1 = rows s @ [Some r]" "len s1 = len s + 1" by simp_all
    from t(8) res obtain p1 where p1: "data s1 = Some p1" "descr (heap s1 p1) = dt"
      by (auto simp: dt_def)
    from a have mn: "m \<noteq> []" by (simp add: accepts_def)
    have c1: "capacity s1 = (case data s of None \<Rightarrow> 2 | Some p \<Rightarrow>
                               (if capacity s \<le> len s then 2 * capacity s else capacity s))"
      using t(7) a mn by (auto simp: accepts_def split: option.splits)
    from append_rows_storable [OF t(1) p1 rest] obtain k p' where
      ih: "table_inv (append_rows np ms s1)"
        "rows (append_rows np ms s1) = rows s1 @ map Some rs'"
        "len (append_rows np ms s1) = len s1 + length ms"
        "data (append_rows np ms s1) = Some p'" "descr (heap (append_rows np ms s1) p') = dt"
        "capacity (append_rows np ms s1) = capacity s1 * 2 ^ k"
        "k = 0 \<or> capacity (append_rows np ms s1) < 2 * (len s1 + length ms)"
      by blast
    define sN where "sN = append_rows np ms s1"
    note ih = ih [folded sN_def]
    have eq: "append_rows np (m # ms) s = sN" using ap by (simp add: sN_def)
    have rN: "rows sN = rows s @ map Some rs" using ih(2) r1 rs by simp
    have lN: "len sN = len s + length (m # ms)" using ih(3) r1 by simp
    have g1: "fst (get_data sN) = Inr (allocated sN)"
      using ih(4) by (simp add: get_data_Some)
    have g2: "heap (snd (get_data sN)) (allocated sN) = \<lparr>descr = dt, buf = rows s @ map Some rs\<rparr>"
      using ih(4,5) rN by (cases "heap sN p'") (simp add: get_data_Some getslice_def rows_def)
    have dbl: "\<exists>k. capacity sN = (case data s of None \<Rightarrow> 2 | Some p \<Rightarrow> capacity s) * 2 ^ k \<and>
                 (k = 0 \<or> capacity sN < 2 * (len s + length (m # ms)))"
    proof (cases "data s")
      case None
      with c1 ih(6) have "capacity sN = 2 * 2 ^ k" by simp
      with ih(7) r1(2) None show ?thesis by auto
    next
      case (Some p)
      from assms Some have le: "len s \<le> capacity s"
        by (simp add: table_inv_def capacity_def)
      show ?thesis
      proof (cases "capacity s \<le> len s")
        case True
        with le have c: "capacity s = len s" by simp
        from True c1 Some ih(6) have "capacity sN = capacity s * 2 ^ Suc k" by simp
        moreover have "capacity sN < 2 * (len s + length (m # ms))"
        proof (cases "k = 0")
          case True
          with ih(6) c1 Some c have "capacity sN = 2 * len s" by simp
          then show ?thesis by simp
        next
          case False
          with ih(7) r1(2) show ?thesis by simp
        qed
        ultimately show ?thesis using Some by (simp only: option.case) blast
      next
        case False
        with c1 Some ih(6) have "capacity sN = capacity s * 2 ^ k" by simp
        with ih(7) r1(2) Some show ?thesis by auto
      qed
    qed
    from ih(1) rN lN g1 g2 dbl show ?thesis unfolding eq dt_def by blast
  qed
  from one acc many show ?thesis by blast
qed

theorem C7_growth_witness:
  "table_inv (Experiment [] [] None Map.empty) \<and>
   list_all2 (storable numpy_exact [(''time'', Float64), (''current'', Float64)])
     five_records five_rows \<and>
   rows (append_rows numpy_exact five_records (Experiment [] [] None Map.empty))
     = map Some five_rows \<and>
   len (append_rows numpy_exact five_records (Experiment [] [] None Map.empty)) = 5 \<and>
   capacity (append_rows numpy_exact five_records (Experiment [] [] None Map.empty)) = 8 \<and>
   heap (snd (get_data (append_rows numpy_exact five_records (Experiment [] [] None Map.empty))))
        (allocated (append_rows numpy_exact five_records (Experiment [] [] None Map.empty)))
     = \<lparr>descr = [(''time'', Float64), (''current'', Float64)], buf = map Some five_rows\<rparr>"
proof -
  have i: "table_inv (Experiment [] [] None Map.empty)"
    by (simp add: table_inv_def Experiment_def)
  have sc: "schema (Experiment [] [] None Map.empty)
              [(''time'', PyFloat (of_nat 1)), (''current'', PyInt (int 1))]
            = [(''time'', Float64), (''current'', Float64)]"
    by (simp add: schema_def Experiment_def column_types_def)
  have l: "list_all2 (storable numpy_exact [(''time'', Float64), (''current'', Float64)])
     five_records five_rows"
    by (simp add: five_records_def five_rows_def storable_def numpy_exact_def)
  have f: "five_records =
     [(''time'', PyFloat (of_nat 1)), (''current'', PyInt (int 1))] #
     map (\<lambda>n. [(''time'', PyFloat (of_nat n)), (''current'', PyInt (int n))]) [2, 3, 4, 5]"
    by (simp add: five_records_def)
  have r0: "rows (Experiment [] [] None Map.empty) = []" "len (Experiment [] [] None Map.empty) = 0"
    by (simp_all add: rows_def Experiment_def)
  have c: "capacity (append_rows numpy_exact five_records (Experiment [] [] None Map.empty)) = 8"
    by (simp add: five_records_def tick_defs capacity_def numpy_exact_def numeral_2_eq_2)
  let ?s = "Experiment [] [] None Map.empty"
  let ?m = "[(''time'', PyFloat (of_nat 1)), (''current'', PyInt (int 1))]"
  let ?ms = "map (\<lambda>n. [(''time'', PyFloat (of_nat n)), (''current'', PyInt (int n))]) [2, 3, 4, 5]"
  have l': "list_all2 (storable numpy_exact (schema ?s ?m)) (?m # ?ms) five_rows"
    using l unfolding f sc .
  from C7_growth [OF i, of numpy_exact ?m ?ms]
  have "\<forall>rs. list_all2 (storable numpy_exact (schema ?s ?m)) (?m # ?ms) rs \<longrightarrow>
            rows (append_rows numpy_exact (?m # ?ms) ?s) = rows ?s @ map Some rs \<and>
            len (append_rows numpy_exact (?m # ?ms) ?s) = len ?s + length (?m # ?ms) \<and>
            heap (snd (get_data (append_rows numpy_exact (?m # ?ms) ?s)))
                 (allocated (append_rows numpy_exact (?m # ?ms) ?s))
              = \<lparr>descr = schema ?s ?m, buf = rows ?s @ map Some rs\<rparr>"
    by blast
  from this [rule_format, OF l']
  have "rows (append_rows numpy_exact five_records ?s) = rows ?s @ map Some five_rows \<and>
        len (append_rows numpy_exact five_records ?s) = len ?s + length five_records \<and>
        heap (snd (get_data (append_rows numpy_exact five_records ?s)))
             (allocated (append_rows numpy_exact five_records ?s))
          = \<lparr>descr = schema ?s ?m, buf = rows ?s @ map Some five_rows\<rparr>"
    unfolding f [symmetric] .
  moreover have "length five_records = 5" by (simp add: five_records_def)
  ultimately show ?thesis using i l c r0 sc by simp
qed

subsection \<open>C2: the columns are frozen\<close>

text \<open>
  Claim C2, as stated, fails. After a first record with an int for the column \<^verbatim>\<open>x\<close>, a
  record with the same columns and a string for \<^verbatim>\<open>x\<close> is not stored: the tick raises
  ValueError and the length stays 1. A record that has no column at all, and so differs
  from the first one, raises ValueError and not the error for other columns. And with a
  column whose name is the empty string the first record is accepted, numpy names its
  field \<^verbatim>\<open>f1\<close>, and the next record with the same columns is refused with the error for
  other columns.
\<close>

theorem C2_counterexample:
  "fst (acquire (measure_key ''x'' (PyStr ''abc'') 2) int_sample)
     = Record [(''time'', PyFloat 2), (''x'', PyStr ''abc'')] \<and>
   array int_sample =
     Some \<lparr>descr = [(''time'', Float64), (''x'', Float64)], buf = [Some [CFloat 1, CFloat 1], None]\<rparr> \<and>
   fst (on_timer numpy_exact (measure_key ''x'' (PyStr ''abc'') 2) int_sample) = Some ValueError \<and>
   len (snd (on_timer numpy_exact (measure_key ''x'' (PyStr ''abc'') 2) int_sample)) = 1 \<and>
   fst (acquire (measure_nothing 2) int_sample) = Record [] \<and>
   fst (on_timer numpy_exact (measure_nothing 2) int_sample) = Some ValueError \<and>
   fst (on_timer numpy_exact (measure_key '''' (PyInt 1) 1)
          (start 0 0 (Experiment [] [] None Map.empty))) = None \<and>
   fst (acquire (measure_key '''' (PyInt 1) 2)
          (snd (on_timer numpy_exact (measure_key '''' (PyInt 1) 1)
                  (start 0 0 (Experiment [] [] None Map.empty)))))
     = Record [(''time'', PyFloat 2), ('''', PyInt 1)] \<and>
   fst (on_timer numpy_exact (measure_key '''' (PyInt 1) 2)
          (snd (on_timer numpy_exact (measure_key '''' (PyInt 1) 1)
                  (start 0 0 (Experiment [] [] None Map.empty)))))
     = Some SchemaMismatch"
  by (simp add: int_sample_def tick_defs numpy_exact_def measure_key_def measure_nothing_def
                array_def string_of_nat.simps numeral_2_eq_2)

text \<open>
  Claim C2, amended. Take a tick, in a state that satisfies the invariant of the table,
  whose measurement function returns the record \<open>m\<close>. When the storing step accepts \<open>m\<close>
  (\<open>m\<close> is not empty; it has the column names of the array in their order or, without an
  array, gives fields with distinct names; and its values convert to the types of the
  columns), the tick stores one row: the length grows by exactly one, the row made of \<open>m\<close>
  follows the rows that were there (which stay as they are when the plot functions do not
  write), and the array has the fields that the record met. The column names of the array
  are those of the record that created it when none of them is the empty string. When
  there is an array and \<open>m\<close>, not empty, has other column names or another order, the tick
  raises the error of line 164 before anything is stored or any sink is called, with the
  timer stopped, and leaves the store as it was: \<^verbatim>\<open>get_data()\<close> returns the rows stored
  before. And no record that the storing step does not accept is stored: the tick raises
  and the rows stay.
\<close>

theorem C2_schema_freeze:
  assumes "table_inv s" "acquire e s = (Record m, sa)" "on_timer np e s = (r, s')"
  shows "(\<forall>row. accepts np s m row \<longrightarrow>
            len s' = len s + 1 \<and> collected np e s = [Some row] \<and>
            (read_only e \<longrightarrow> rows s' = rows s @ [Some row]) \<and>
            (\<exists>p'. data s' = Some p' \<and> descr (heap s' p') = schema s m)) \<and>
         (data s = None \<and> [] \<notin> set (map fst m) \<longrightarrow> map fst (schema s m) = map fst m) \<and>
         (\<forall>p. data s = Some p \<and> m \<noteq> [] \<and> map fst m \<noteq> names (heap s p) \<longrightarrow>
            r = Some SchemaMismatch \<and> \<not> timer_active s' \<and> store s' = store s \<and>
            rows s' = rows s \<and> trace s' = trace sa \<and>
            fst (get_data s') = Inr (allocated s') \<and>
            heap (snd (get_data s')) (allocated s')
              = \<lparr>descr = descr (heap s p), buf = rows s\<rparr>) \<and>
         (\<not> (\<exists>row. accepts np s m row) \<longrightarrow>
            r \<noteq> None \<and> \<not> timer_active s' \<and> len s' = len s \<and> rows s' = rows s)"
proof -
  note fa = acquire_frame [OF assms(2)]
  then have sta: "store sa = store s" by simp
  note ea = store_eqD [OF sta]
  from assms(1) ea(6) have inva: "table_inv sa" by simp
  obtain r2 s2 where ap: "append_row np m sa = (r2, s2)" by (cases "append_row np m sa")
  note t = append_row_table [OF inva ap]
  have acc_eq: "accepts np sa m = accepts np s m"
    using ea by (intro ext) (simp add: accepts_def split: option.splits)
  note tt = on_timer_table [OF assms(1,3)]
  have yes: "len s' = len s + 1 \<and> collected np e s = [Some row] \<and>
            (read_only e \<longrightarrow> rows s' = rows s @ [Some row]) \<and>
            (\<exists>p'. data s' = Some p' \<and> descr (heap s' p') = schema s m)"
    if acc: "accepts np s m row" for row
  proof -
    note c = collected_Record(1) [OF assms(2) acc]
    from t(8) acc acc_eq obtain d where r2: "r2 = Inr d" by (cases r2) auto
    with t(8) ea obtain p2 where p2: "data s2 = Some p2" "descr (heap s2 p2) = schema s m"
      by auto
    obtain r3 s3 where rp: "report np e d s2 = (r3, s3)" by (cases "report np e d s2")
    from report_frame [OF rp] have rw: "rewritten s2 s3" by simp
    note d3 = rewrittenD [OF rw]
    from r2 assms(2) ap rp assms(3) on_timer_Record [of e s m sa np]
    have "s' = s3 \<or> s' = s3\<lparr>timer_active := False\<rparr>" by (cases r3) simp_all
    then have "data s' = data s3" "heap s' = heap s3" by auto
    with d3(1) d3(10) [OF p2(1)] p2
    have "\<exists>p'. data s' = Some p' \<and> descr (heap s' p') = schema s m" by simp
    with tt(7,8) c show ?thesis by simp
  qed
  have names: "data s = None \<and> [] \<notin> set (map fst m) \<longrightarrow> map fst (schema s m) = map fst m"
    by (simp add: schema_def column_types_fst)
  have other: "r = Some SchemaMismatch \<and> \<not> timer_active s' \<and> store s' = store s \<and>
            rows s' = rows s \<and> trace s' = trace sa \<and>
            fst (get_data s') = Inr (allocated s') \<and>
            heap (snd (get_data s')) (allocated s')
              = \<lparr>descr = descr (heap s p), buf = rows s\<rparr>"
    if d: "data s = Some p" and ne: "m \<noteq> []" and nm: "map fst m \<noteq> names (heap s p)" for p
  proof -
    from d ea have da: "data sa = Some p" "heap sa p = heap s p" by simp_all
    from append_row_existing [OF da(1) ne, of np] nm da(2)
    have "append_row np m sa = (Inl SchemaMismatch, sa)" by simp
    with on_timer_Record [OF assms(2), of np] assms(3)
    have r: "r = Some SchemaMismatch" and s': "s' = sa\<lparr>timer_active := False\<rparr>" by simp_all
    have st': "store s' = store s" using s' sta by simp
    note e' = store_eqD [OF st']
    have "fst (get_data s') = Inr (allocated s') \<and>
          heap (snd (get_data s')) (allocated s') = \<lparr>descr = descr (heap s p), buf = rows s\<rparr>"
      using d e' by (cases "heap s p") (simp add: get_data_Some getslice_def rows_def)
    with r s' st' e'(5) show ?thesis by simp
  qed
  have no: "r \<noteq> None \<and> \<not> timer_active s' \<and> len s' = len s \<and> rows s' = rows s"
    if na: "\<not> (\<exists>row. accepts np s m row)"
  proof -
    note c = collected_Record(2) [OF assms(2) na]
    from t(8) na acc_eq obtain ex where r2: "r2 = Inl ex" by (cases r2) auto
    with on_timer_Record [OF assms(2), of np] ap assms(3)
    have "r = Some ex" "s' = s2\<lparr>timer_active := False\<rparr>" by simp_all
    with tt(7,8) c show ?thesis by simp
  qed
  from yes names other no show ?thesis by blast
qed

theorem C2_schema_freeze_witness:
  "table_inv int_sample \<and>
   fst (acquire (measure_key ''x'' (PyFloat 2) 2) int_sample)
     = Record [(''time'', PyFloat 2), (''x'', PyFloat 2)] \<and>
   accepts numpy_exact int_sample [(''time'', PyFloat 2), (''x'', PyFloat 2)] [CFloat 2, CFloat 2] \<and>
   rows (snd (on_timer numpy_exact (measure_key ''x'' (PyFloat 2) 2) int_sample))
     = [Some [CFloat 1, CFloat 1], Some [CFloat 2, CFloat 2]] \<and>
   fst (acquire (measure_key ''y'' (PyFloat 2) 2) int_sample)
     = Record [(''time'', PyFloat 2), (''y'', PyFloat 2)] \<and>
   fst (on_timer numpy_exact (measure_key ''y'' (PyFloat 2) 2) int_sample) = Some SchemaMismatch \<and>
   rows (snd (on_timer numpy_exact (measure_key ''y'' (PyFloat 2) 2) int_sample))
     = [Some [CFloat 1, CFloat 1]]"
proof -
  have d: "data int_sample = Some 0" "len int_sample = 1"
    "heap int_sample 0 =
       \<lparr>descr = [(''time'', Float64), (''x'', Float64)], buf = [Some [CFloat 1, CFloat 1], None]\<rparr>"
    "allocated int_sample = 1" "t0 int_sample = Some 0"
    by (simp_all add: int_sample_def tick_defs numpy_exact_def measure_key_def numeral_2_eq_2)
  have i: "table_inv int_sample" using d by (simp add: table_inv_def)
  have rw: "rows int_sample = [Some [CFloat 1, CFloat 1]]" using d by (simp add: rows_def)
  obtain sa where a1: "acquire (measure_key ''x'' (PyFloat 2) 2) int_sample
                       = (Record [(''time'', PyFloat 2), (''x'', PyFloat 2)], sa)"
    by (cases "acquire (measure_key ''x'' (PyFloat 2) 2) int_sample")
       (simp add: int_sample_def tick_defs numpy_exact_def measure_key_def)
  obtain sb where a2: "acquire (measure_key ''y'' (PyFloat 2) 2) int_sample
                       = (Record [(''time'', PyFloat 2), (''y'', PyFloat 2)], sb)"
    by (cases "acquire (measure_key ''y'' (PyFloat 2) 2) int_sample")
       (simp add: int_sample_def tick_defs numpy_exact_def measure_key_def)
  have acc: "accepts numpy_exact int_sample [(''time'', PyFloat 2), (''x'', PyFloat 2)]
               [CFloat 2, CFloat 2]"
    using d by (simp add: accepts_def schema_def names_def numpy_exact_def)
  have ro: "read_only (measure_key ''x'' (PyFloat 2) 2)"
    by (simp add: read_only_def measure_key_def)
  have nm: "[(''time'', PyFloat 2), (''y'', PyFloat 2)] \<noteq> [] \<and>
            map fst [(''time'', PyFloat 2), (''y'', PyFloat 2)] \<noteq> names (heap int_sample 0)"
    using d by (simp add: names_def)
  obtain r1 s1 where t1: "on_timer numpy_exact (measure_key ''x'' (PyFloat 2) 2) int_sample = (r1, s1)"
    by (cases "on_timer numpy_exact (measure_key ''x'' (PyFloat 2) 2) int_sample")
  obtain r2 s2 where t2: "on_timer numpy_exact (measure_key ''y'' (PyFloat 2) 2) int_sample = (r2, s2)"
    by (cases "on_timer numpy_exact (measure_key ''y'' (PyFloat 2) 2) int_sample")
  from C2_schema_freeze [OF i a1 t1] acc ro rw
  have x: "rows s1 = [Some [CFloat 1, CFloat 1], Some [CFloat 2, CFloat 2]]" by auto
  from C2_schema_freeze [OF i a2 t2] nm d(1) rw
  have y: "r2 = Some SchemaMismatch" "rows s2 = [Some [CFloat 1, CFloat 1]]" by auto
  from i a1 a2 acc x y t1 t2 show ?thesis by simp
qed

subsection \<open>C6: the measurement function raises\<close>



subsection \<open>C10: the file of a CsvLogger exists\<close>



subsection \<open>C8: the types of the columns\<close>





end
